theory Spec2Isabelle
  imports Main "HOL-Library.Word"
begin

section \<open>The UDP relay core of go-shadowsocks2 (udp.go)\<close>

text \<open>
  A shallow embedding of \<^verbatim>\<open>udp.go\<close>. Datagrams and buffers are byte lists, a
  packet connection is an identity (a number), the Session Table is a finite map, and every
  call into the operating system, the resolver or the clock takes its answer from an
  event supplied by the environment. A run-time panic of the Go program (a slice expression
  out of range) is a control value of its own, as is an error return.
\<close>

subsection \<open>Bytes, buffers and slice expressions\<close>

type_synonym byte = "8 word"

text \<open>\<^verbatim>\<open>type mode int; const ( remoteServer mode = iota; relayClient; socksClient )\<close>\<close>

datatype mode = remoteServer | relayClient | socksClient

text \<open>\<^verbatim>\<open>const udpBufSize = 64 * 1024\<close>\<close>

definition udpBufSize :: nat where
  "udpBufSize = 64 * 1024"

text \<open>\<^verbatim>\<open>make([]byte, n)\<close>: n zero bytes; length and capacity are both n.\<close>

definition make_bytes :: "nat \<Rightarrow> byte list" where
  "make_bytes n = replicate n 0"

text \<open>
  The slice expression \<^verbatim>\<open>b[lo:hi]\<close> on a slice whose capacity is its length (every
  buffer of this file is sliced directly): Go panics unless \<open>lo \<le> hi \<le> cap b\<close>;
  \<open>None\<close> is that panic. \<^verbatim>\<open>b[lo:]\<close> is \<^verbatim>\<open>b[lo:len(b)]\<close> and \<^verbatim>\<open>b[:hi]\<close>
  is \<^verbatim>\<open>b[0:hi]\<close>.
\<close>

definition slice :: "byte list \<Rightarrow> nat \<Rightarrow> nat \<Rightarrow> byte list option" where
  "slice b lo hi = (if lo \<le> hi \<and> hi \<le> length b then Some (drop lo (take hi b)) else None)"

text \<open>
  The built-in \<^verbatim>\<open>copy(b[off:], src)\<close> seen on the whole buffer \<open>b\<close> (for
  \<open>off \<le> length b\<close>): it copies \<open>min (len(b) - off) (len src)\<close> bytes, leaves
  the rest of \<open>b\<close> alone, and reads the source as it was before the call (the language
  defines \<^verbatim>\<open>copy\<close> for overlapping arguments).
\<close>

definition go_copy :: "byte list \<Rightarrow> nat \<Rightarrow> byte list \<Rightarrow> byte list" where
  "go_copy b off src = take off b @ take (length b - off) src @ drop (off + length src) b"

text \<open>
  \<^verbatim>\<open>ReadFrom(b[off:])\<close> receiving the datagram \<open>d\<close>: the bytes that fit are stored
  from \<open>off\<close> on, and their number \<open>n\<close> is returned.
\<close>

definition read_n :: "byte list \<Rightarrow> nat \<Rightarrow> byte list \<Rightarrow> nat" where
  "read_n b off d = min (length d) (length b - off)"

definition read_into :: "byte list \<Rightarrow> nat \<Rightarrow> byte list \<Rightarrow> byte list" where
  "read_into b off d = go_copy b off d"

subsection \<open>Errors, addresses and the Address Adapter\<close>

datatype error =
    NotUDPAddr          \<comment> \<open>\<^verbatim>\<open>fmt.Errorf("not a UDPAddr")\<close>\<close>
  | InvalidIP           \<comment> \<open>\<^verbatim>\<open>fmt.Errorf("invalid IP: %v", ...)\<close>\<close>
  | ParseError          \<comment> \<open>the error of \<^verbatim>\<open>netip.ParseAddr\<close>\<close>
  | DeadlineExceeded    \<comment> \<open>a read past the deadline set by \<^verbatim>\<open>SetReadDeadline\<close>\<close>
  | InvalidTarget       \<comment> \<open>\<^verbatim>\<open>fmt.Errorf("invalid target address: %q", target)\<close>\<close>
  | IOError string      \<comment> \<open>any other error of the network stack\<close>

text \<open>
  A \<^verbatim>\<open>net.Addr\<close> is an interface value: a \<^verbatim>\<open>*net.UDPAddr\<close> with its fields
  \<^verbatim>\<open>IP []byte\<close>, \<^verbatim>\<open>Port int\<close>, \<^verbatim>\<open>Zone string\<close>, or a value of any other
  dynamic type. A read that succeeds returns the address of the sender, never a nil
  pointer, so none is modelled.
\<close>

datatype net_Addr =
    UDPAddr (IP: "byte list") (Port: int) (Zone: string)
  | OtherAddr string

text \<open>
  \<^verbatim>\<open>netip.Addr\<close>: the zero value (invalid), an IPv4 address of 4 bytes or an IPv6 address
  of 16 bytes. \<^verbatim>\<open>netip.AddrPort\<close> pairs it with a \<^verbatim>\<open>uint16\<close> port.
\<close>

datatype netip_Addr = ZeroAddr | Addr4 "byte list" | Addr6 "byte list"

type_synonym netip_AddrPort = "netip_Addr \<times> 16 word"

definition zero_AddrPort :: netip_AddrPort where
  "zero_AddrPort = (ZeroAddr, 0)"

definition AddrPortFrom :: "netip_Addr \<Rightarrow> 16 word \<Rightarrow> netip_AddrPort" where
  "AddrPortFrom ip port = (ip, port)"

definition IsValid :: "netip_Addr \<Rightarrow> bool" where
  "IsValid a = (a \<noteq> ZeroAddr)"

text \<open>\<^verbatim>\<open>netip.Addr.AsSlice\<close>: nil for the zero value, else the 4 or 16 bytes.\<close>

fun AsSlice :: "netip_Addr \<Rightarrow> byte list" where
  "AsSlice ZeroAddr = []"
| "AsSlice (Addr4 b) = b"
| "AsSlice (Addr6 b) = b"

text \<open>
  \<^verbatim>\<open>net.IP.To4\<close> of the standard library: a 4-byte address is itself, a 16-byte address
  with the IPv4-in-IPv6 prefix (ten zero bytes, then \<open>0xff 0xff\<close>) is its last four bytes,
  anything else is nil.
\<close>

definition To4 :: "byte list \<Rightarrow> byte list option" where
  "To4 ip =
     (if length ip = 4 then Some ip
      else if length ip = 16 \<and> take 10 ip = replicate 10 0 \<and> ip ! 10 = 255 \<and> ip ! 11 = 255
        then Some (drop 12 ip)
      else None)"

text \<open>
  The text that \<^verbatim>\<open>net.IP.String\<close> prints, kept abstract: \<^verbatim>\<open><nil>\<close> for an empty
  slice, \<^verbatim>\<open>?\<close> and hex digits for a slice of a wrong length, dotted decimal for an
  address that \<^verbatim>\<open>To4\<close> accepts, colon-separated groups for any other 16 bytes.
  \<^verbatim>\<open>netip.ParseAddr\<close> reads the last two forms back to the address they print and
  rejects the first two; on an error it returns the zero \<^verbatim>\<open>Addr\<close>.
\<close>

datatype ip_text = NilText | BadText "byte list" | Dotted "byte list" | Groups "byte list"

definition IP_String :: "byte list \<Rightarrow> ip_text" where
  "IP_String ip =
     (if length ip = 0 then NilText
      else if length ip \<noteq> 4 \<and> length ip \<noteq> 16 then BadText ip
      else (case To4 ip of Some p4 \<Rightarrow> Dotted p4 | None \<Rightarrow> Groups ip))"

fun netip_ParseAddr :: "ip_text \<Rightarrow> netip_Addr \<times> error option" where
  "netip_ParseAddr (Dotted b) = (Addr4 b, None)"
| "netip_ParseAddr (Groups b) = (Addr6 b, None)"
| "netip_ParseAddr NilText = (ZeroAddr, Some ParseError)"
| "netip_ParseAddr (BadText b) = (ZeroAddr, Some ParseError)"

text \<open>
  \<^verbatim>\<open>func udpAddrToNetip(addr net.Addr) (netip.AddrPort, error)\<close>. Both results are
  returned, as in Go; \<^verbatim>\<open>uint16(udp.Port)\<close> keeps the low 16 bits of the port.
\<close>

definition udpAddrToNetip :: "net_Addr \<Rightarrow> netip_AddrPort \<times> error option" where
  "udpAddrToNetip addr =
     (case addr of
        OtherAddr s \<Rightarrow> (zero_AddrPort, Some NotUDPAddr)
      | UDPAddr uip uport uzone \<Rightarrow>
          (case netip_ParseAddr (IP_String uip) of
             (ip, Some err) \<Rightarrow> (zero_AddrPort, Some InvalidIP)
           | (ip, None) \<Rightarrow>
               if \<not> IsValid ip then (zero_AddrPort, Some InvalidIP)
               else (AddrPortFrom ip (word_of_int uport), None)))"

subsection \<open>The Wire Address codec (package socks)\<close>

text \<open>
  A \<^verbatim>\<open>socks.Addr\<close> is a byte slice that may be nil: \<open>None\<close> is nil, whose length
  is 0 and which has no bytes to copy.
\<close>

fun addr_bytes :: "byte list option \<Rightarrow> byte list" where
  "addr_bytes None = []"
| "addr_bytes (Some a) = a"

text \<open>
  Modelled from the spec: the type tags of package \<^verbatim>\<open>socks\<close>, which is not among the
  sources. The spec speaks of "fixed type tags for IPv4, IPv6, and domain-name forms";
  the values are those of the SOCKS5 address format.
\<close>

definition AtypIPv4 :: byte where "AtypIPv4 = 1"
definition AtypDomainName :: byte where "AtypDomainName = 3"
definition AtypIPv6 :: byte where "AtypIPv6 = 4"

text \<open>
  Modelled from the spec: the first \<open>addrLen\<close> bytes of the buffer, or nil when the
  buffer is shorter than the address its type tag announces.
\<close>

definition take_addr :: "byte list \<Rightarrow> nat \<Rightarrow> byte list option" where
  "take_addr b addrLen = (if length b < addrLen then None else Some (take addrLen b))"

text \<open>
  Modelled from the spec: \<^verbatim>\<open>socks.SplitAddr\<close> is called by \<^verbatim>\<open>udp.go\<close> and lives in
  package \<^verbatim>\<open>socks\<close>, which is not among the sources. The spec describes the Wire Address
  as "type tag + address bytes + 2-byte port", "self-delimiting from its type tag", with
  "fixed type tags for IPv4, IPv6, and domain-name forms, each followed by a 2-byte
  big-endian port", and \<^verbatim>\<open>split(buffer)\<close> as returning the leading Wire Address of the
  buffer, or nil when there is none. An IPv4 address has 4 bytes and an IPv6 address 16; a
  domain name carries its length in the byte after the tag.
\<close>

definition SplitAddr :: "byte list \<Rightarrow> byte list option" where
  "SplitAddr b =
     (case b of
        [] \<Rightarrow> None
      | t # r \<Rightarrow>
          if t = AtypDomainName then
            (case r of [] \<Rightarrow> None | l # r' \<Rightarrow> take_addr b (1 + 1 + unat l + 2))
          else if t = AtypIPv4 then take_addr b (1 + 4 + 2)
          else if t = AtypIPv6 then take_addr b (1 + 16 + 2)
          else None)"

text \<open>
  The two text functions that \<^verbatim>\<open>udp.go\<close> composes to encode an address are parameters
  of the model: \<^verbatim>\<open>socks.ParseAddr\<close> (text to Wire Address, nil when the text is no
  address; package \<^verbatim>\<open>socks\<close> is not among the sources) and the \<^verbatim>\<open>String\<close>
  method of a \<^verbatim>\<open>net.Addr\<close>.
\<close>

record extern =
  ParseAddr :: "string \<Rightarrow> byte list option"
  Addr_String :: "net_Addr \<Rightarrow> string"

subsection \<open>Connections, effects and control\<close>

text \<open>A \<^verbatim>\<open>net.PacketConn\<close> is known by its identity; a nil connection is \<open>None\<close>.\<close>

type_synonym conn = nat

text \<open>
  What the program does to the outside, in order: a log line (by its message), a read
  deadline, a blocking read, a datagram written to an address, a call of
  \<^verbatim>\<open>net.ListenPacket\<close>, the goroutine started by \<^verbatim>\<open>natmap.Add\<close> (peer, dst, src,
  timeout, role) and a closed connection.
\<close>

datatype effect =
    Logf string
  | SetReadDeadline conn int
  | ReadFrom conn
  | WriteTo conn "byte list" net_Addr
  | ListenPacket
  | Go netip_AddrPort conn conn int mode
  | Close conn

text \<open>
  How a loop body ends: with the next iteration, with \<^verbatim>\<open>return err\<close>, or with a
  run-time panic. For a whole loop on a finite list of events, \<open>Continue\<close> says that the
  loop is still running, blocked in the read of the next datagram.
\<close>

datatype ctl = Continue | Return error | Panic

text \<open>
  \<^verbatim>\<open>for { ... }\<close>: the body runs once for each event the environment delivers, as long as
  it ends with \<open>Continue\<close>. The result lists the effects of each iteration that ran.
\<close>

fun run_loop :: "('s \<Rightarrow> 'e \<Rightarrow> effect list \<times> 's \<times> ctl) \<Rightarrow> 's \<Rightarrow> 'e list
                 \<Rightarrow> effect list list \<times> 's \<times> ctl" where
  "run_loop body s [] = ([], s, Continue)"
| "run_loop body s (e # es) =
     (case body s e of
        (fx, s', k) \<Rightarrow>
          (case k of
             Continue \<Rightarrow> (case run_loop body s' es of (tr, s'', k') \<Rightarrow> (fx # tr, s'', k'))
           | Return err \<Rightarrow> ([fx], s', Return err)
           | Panic \<Rightarrow> ([fx], s', Panic)))"

subsection \<open>Packet NAT table\<close>

text \<open>
  \<^verbatim>\<open>type natmap struct { sync.RWMutex; m map[netip.AddrPort]net.PacketConn; timeout time.Duration }\<close>.
  Each method holds the lock for its whole body, so each is one atomic step on the map.
\<close>

record natmap =
  natmap_m :: "netip_AddrPort \<rightharpoonup> conn"
  natmap_timeout :: int

definition newNATmap :: "int \<Rightarrow> natmap" where
  "newNATmap timeout = \<lparr>natmap_m = Map.empty, natmap_timeout = timeout\<rparr>"

definition natmap_Get :: "natmap \<Rightarrow> netip_AddrPort \<Rightarrow> conn option" where
  "natmap_Get nm key = natmap_m nm key"

definition natmap_Set :: "natmap \<Rightarrow> netip_AddrPort \<Rightarrow> conn \<Rightarrow> natmap" where
  "natmap_Set nm key pc = nm\<lparr>natmap_m := (natmap_m nm)(key \<mapsto> pc)\<rparr>"


text \<open>
  \<^verbatim>\<open>natmap.Add\<close>: \<^verbatim>\<open>m.Set(peer, src)\<close>, then \<^verbatim>\<open>go func() { ... }()\<close>. The started
  goroutine is an effect; its body is \<open>Add_goroutine\<close> below.
\<close>

definition natmap_Add :: "natmap \<Rightarrow> netip_AddrPort \<Rightarrow> conn \<Rightarrow> conn \<Rightarrow> mode
                          \<Rightarrow> natmap \<times> effect list" where
  "natmap_Add nm peer dst src role =
     (natmap_Set nm peer src, [Go peer dst src (natmap_timeout nm) role])"

subsection \<open>The session relay loop\<close>

text \<open>
  One iteration of \<^verbatim>\<open>timedCopy\<close> takes from the environment the clock reading
  \<^verbatim>\<open>time.Now()\<close>, the result of \<^verbatim>\<open>src.ReadFrom(buf)\<close> (an error, or the datagram
  and the address it came from) and the result of \<^verbatim>\<open>dst.WriteTo\<close>, should it be called.
\<close>

record tc_event =
  tc_now :: int
  tc_read :: "error + (byte list \<times> net_Addr)"
  tc_write :: "error option"

text \<open>
  The \<^verbatim>\<open>switch role\<close> of \<^verbatim>\<open>timedCopy\<close>, after \<open>n\<close> bytes were read into \<open>buf\<close>
  from \<open>addr\<close>: the datagram handed to \<^verbatim>\<open>dst.WriteTo\<close> and the buffer afterwards, or
  \<open>None\<close> when a slice expression panics.
\<close>

definition role_switch :: "extern \<Rightarrow> mode \<Rightarrow> byte list \<Rightarrow> nat \<Rightarrow> net_Addr
                           \<Rightarrow> (byte list \<times> byte list) option" where
  "role_switch x role buf n addr =
     (case role of
        remoteServer \<Rightarrow>
          (let srcAddr = ParseAddr x (Addr_String x addr);
               l = length (addr_bytes srcAddr) in
           case slice buf l (length buf) of
             None \<Rightarrow> None
           | Some dst_part \<Rightarrow>
               (case slice buf 0 n of
                  None \<Rightarrow> None
                | Some src_part \<Rightarrow>
                    (let buf1 = go_copy buf l src_part;
                         buf2 = go_copy buf1 0 (addr_bytes srcAddr) in
                     case slice buf2 0 (l + n) of
                       None \<Rightarrow> None
                     | Some out \<Rightarrow> Some (out, buf2))))
      | relayClient \<Rightarrow>
          (case slice buf 0 n of
             None \<Rightarrow> None
           | Some dgram \<Rightarrow>
               (let srcAddr = SplitAddr dgram in
                case slice buf (length (addr_bytes srcAddr)) n of
                  None \<Rightarrow> None
                | Some out \<Rightarrow> Some (out, buf)))
      | socksClient \<Rightarrow>
          (case slice buf 0 n of
             None \<Rightarrow> None
           | Some dgram \<Rightarrow> Some ([0, 0, 0] @ dgram, buf)))"

definition timedCopy_iter :: "extern \<Rightarrow> conn \<Rightarrow> net_Addr \<Rightarrow> conn \<Rightarrow> int \<Rightarrow> mode
                              \<Rightarrow> byte list \<Rightarrow> tc_event \<Rightarrow> effect list \<times> byte list \<times> ctl" where
  "timedCopy_iter x dst udpTarget src timeout role buf e =
     (let fx = [SetReadDeadline src (tc_now e + timeout), ReadFrom src] in
      case tc_read e of
        Inl err \<Rightarrow> (fx, buf, Return err)
      | Inr (d, addr) \<Rightarrow>
          (let n = read_n buf 0 d;
               buf1 = read_into buf 0 d in
           case role_switch x role buf1 n addr of
             None \<Rightarrow> (fx, buf1, Panic)
           | Some (out, buf2) \<Rightarrow>
               (case tc_write e of
                  Some err \<Rightarrow> (fx @ [WriteTo dst out udpTarget], buf2, Return err)
                | None \<Rightarrow> (fx @ [WriteTo dst out udpTarget], buf2, Continue))))"

text \<open>
  \<^verbatim>\<open>func timedCopy(dst, target, src, timeout, role) error\<close>: a fresh buffer, the
  reverse destination \<^verbatim>\<open>udpTarget\<close> built from the peer, then the loop.
\<close>

definition timedCopy :: "extern \<Rightarrow> conn \<Rightarrow> netip_AddrPort \<Rightarrow> conn \<Rightarrow> int \<Rightarrow> mode
                         \<Rightarrow> tc_event list \<Rightarrow> effect list list \<times> byte list \<times> ctl" where
  "timedCopy x dst target src timeout role es =
     (let buf = make_bytes udpBufSize;
          udpTarget = UDPAddr (AsSlice (fst target)) (uint (snd target)) [] in
      run_loop (timedCopy_iter x dst udpTarget src timeout role) buf es)"


subsection \<open>The three ingress loops\<close>

text \<open>
  One iteration of an ingress loop takes from the environment the result of
  \<^verbatim>\<open>ReadFrom\<close> on the listening socket, the answer of the resolver for a Wire Address
  (\<^verbatim>\<open>net.ResolveUDPAddr("udp", tgtAddr.String())\<close>, server mode only), the result of
  \<^verbatim>\<open>net.ListenPacket("udp", "")\<close> and the result of \<^verbatim>\<open>pc.WriteTo\<close>; the last three
  are consulted only when the call is made. What an ingress loop carries from one
  iteration to the next is the table and the receive buffer.
\<close>

record event =
  ev_read :: "error + (byte list \<times> net_Addr)"
  ev_resolve :: "byte list \<Rightarrow> error + net_Addr"
  ev_listen :: "error + conn"
  ev_write :: "error option"

record loop_state =
  st_nm :: natmap
  st_buf :: "byte list"

text \<open>The body of the \<^verbatim>\<open>for\<close> loop of \<^verbatim>\<open>udpLocal\<close> (lines 56 to 85).\<close>

definition udpLocal_iter :: "conn \<Rightarrow> net_Addr \<Rightarrow> byte list \<Rightarrow> (conn \<Rightarrow> conn)
                             \<Rightarrow> loop_state \<Rightarrow> event \<Rightarrow> effect list \<times> loop_state \<times> ctl" where
  "udpLocal_iter c srvAddr tgt shadow st e =
     (case slice (st_buf st) (length tgt) (length (st_buf st)) of
        None \<Rightarrow> ([], st, Panic)
      | Some room \<Rightarrow>
          (case ev_read e of
             Inl err \<Rightarrow> ([ReadFrom c, Logf ''UDP local read error''], st, Continue)
           | Inr (d, addr) \<Rightarrow>
               (let n = read_n (st_buf st) (length tgt) d;
                    st1 = st\<lparr>st_buf := read_into (st_buf st) (length tgt) d\<rparr> in
                case udpAddrToNetip addr of
                  (raddr, Some err) \<Rightarrow>
                    ([ReadFrom c, Logf ''Address conversion failed''], st1, Continue)
                | (raddr, None) \<Rightarrow>
                    (case (case natmap_Get (st_nm st1) raddr of
                             Some pc \<Rightarrow> Inr (pc, st_nm st1, [])
                           | None \<Rightarrow>
                               (case ev_listen e of
                                  Inl err \<Rightarrow> Inl [ListenPacket, Logf ''UDP local listen error'']
                                | Inr pc0 \<Rightarrow>
                                    (let pc = shadow pc0 in
                                     case natmap_Add (st_nm st1) raddr c pc relayClient of
                                       (nm', gx) \<Rightarrow> Inr (pc, nm', ListenPacket # gx)))) of
                       Inl fx \<Rightarrow> (ReadFrom c # fx, st1, Continue)
                     | Inr (pc, nm', fx) \<Rightarrow>
                         (case slice (st_buf st1) 0 (length tgt + n) of
                            None \<Rightarrow> (ReadFrom c # fx, st1\<lparr>st_nm := nm'\<rparr>, Panic)
                          | Some out \<Rightarrow>
                              (ReadFrom c # fx @ [WriteTo pc out srvAddr]
                                 @ (case ev_write e of
                                      Some err \<Rightarrow> [Logf ''UDP local write error'']
                                    | None \<Rightarrow> []),
                               st1\<lparr>st_nm := nm'\<rparr>, Continue))))))"

text \<open>The body of the \<^verbatim>\<open>for\<close> loop of \<^verbatim>\<open>udpSocksLocal\<close> (lines 112 to 141).\<close>

definition udpSocksLocal_iter :: "conn \<Rightarrow> net_Addr \<Rightarrow> (conn \<Rightarrow> conn)
                             \<Rightarrow> loop_state \<Rightarrow> event \<Rightarrow> effect list \<times> loop_state \<times> ctl" where
  "udpSocksLocal_iter c srvAddr shadow st e =
     (case ev_read e of
        Inl err \<Rightarrow> ([ReadFrom c, Logf ''UDP local read error''], st, Continue)
      | Inr (d, addr) \<Rightarrow>
          (let n = read_n (st_buf st) 0 d;
               st1 = st\<lparr>st_buf := read_into (st_buf st) 0 d\<rparr> in
           case udpAddrToNetip addr of
             (raddr, Some err) \<Rightarrow>
               ([ReadFrom c, Logf ''Address conversion failed''], st1, Continue)
           | (raddr, None) \<Rightarrow>
               (case (case natmap_Get (st_nm st1) raddr of
                        Some pc \<Rightarrow> Inr (Some (pc, st_nm st1, []))
                      | None \<Rightarrow>
                          (case ev_listen e of
                             Inl err \<Rightarrow> Inl [ListenPacket, Logf ''UDP local listen error'']
                           | Inr pc0 \<Rightarrow>
                               (case slice (st_buf st1) 3 (length (st_buf st1)) of
                                  None \<Rightarrow> Inr None
                                | Some logged \<Rightarrow>
                                    (let pc = shadow pc0 in
                                     case natmap_Add (st_nm st1) raddr c pc socksClient of
                                       (nm', gx) \<Rightarrow>
                                         Inr (Some (pc, nm',
                                                    [ListenPacket, Logf ''UDP socks tunnel''] @ gx)))))) of
                  Inl fx \<Rightarrow> (ReadFrom c # fx, st1, Continue)
                | Inr None \<Rightarrow> ([ReadFrom c, ListenPacket], st1, Panic)
                | Inr (Some (pc, nm', fx)) \<Rightarrow>
                    (case slice (st_buf st1) 3 n of
                       None \<Rightarrow> (ReadFrom c # fx, st1\<lparr>st_nm := nm'\<rparr>, Panic)
                     | Some out \<Rightarrow>
                         (ReadFrom c # fx @ [WriteTo pc out srvAddr]
                            @ (case ev_write e of
                                 Some err \<Rightarrow> [Logf ''UDP local write error'']
                               | None \<Rightarrow> []),
                          st1\<lparr>st_nm := nm'\<rparr>, Continue)))))"

text \<open>
  The body of the \<^verbatim>\<open>for\<close> loop of \<^verbatim>\<open>udpRemote\<close> (lines 168 to 210). Inside the loop
  \<^verbatim>\<open>pc := nm.Get(raddr)\<close> declares a new variable that hides the tunnel socket
  \<^verbatim>\<open>pc := shadow(cc)\<close> of the function, so \<^verbatim>\<open>nm.Add(raddr, pc, pc, remoteServer)\<close>
  passes the new connection twice; the tunnel socket \<open>tunnel\<close> is only read.
\<close>

definition udpRemote_iter :: "conn \<Rightarrow> loop_state \<Rightarrow> event
                              \<Rightarrow> effect list \<times> loop_state \<times> ctl" where
  "udpRemote_iter tunnel st e =
     (case ev_read e of
        Inl err \<Rightarrow> ([ReadFrom tunnel, Logf ''UDP remote read error''], st, Continue)
      | Inr (d, addr) \<Rightarrow>
          (let n = read_n (st_buf st) 0 d;
               st1 = st\<lparr>st_buf := read_into (st_buf st) 0 d\<rparr> in
           case udpAddrToNetip addr of
             (raddr, Some err) \<Rightarrow>
               ([ReadFrom tunnel, Logf ''Address conversion failed''], st1, Continue)
           | (raddr, None) \<Rightarrow>
               (case slice (st_buf st1) 0 n of
                  None \<Rightarrow> ([ReadFrom tunnel], st1, Panic)
                | Some dgram \<Rightarrow>
                    (case SplitAddr dgram of
                       None \<Rightarrow>
                         ([ReadFrom tunnel,
                           Logf ''failed to split target address from packet''], st1, Continue)
                     | Some tgtAddr \<Rightarrow>
                         (case ev_resolve e tgtAddr of
                            Inl err \<Rightarrow>
                              ([ReadFrom tunnel,
                                Logf ''failed to resolve target UDP address''], st1, Continue)
                          | Inr tgtUDPAddr \<Rightarrow>
                              (case slice (st_buf st1) (length tgtAddr) n of
                                 None \<Rightarrow> ([ReadFrom tunnel], st1, Panic)
                               | Some payload \<Rightarrow>
                                   (case (case natmap_Get (st_nm st1) raddr of
                                            Some pc \<Rightarrow> Inr (pc, st_nm st1, [])
                                          | None \<Rightarrow>
                                              (case ev_listen e of
                                                 Inl err \<Rightarrow>
                                                   Inl [ListenPacket, Logf ''UDP remote listen error'']
                                               | Inr pc \<Rightarrow>
                                                   (case natmap_Add (st_nm st1) raddr pc pc remoteServer of
                                                      (nm', gx) \<Rightarrow> Inr (pc, nm', ListenPacket # gx)))) of
                                      Inl fx \<Rightarrow> (ReadFrom tunnel # fx, st1, Continue)
                                    | Inr (pc, nm', fx) \<Rightarrow>
                                        (ReadFrom tunnel # fx @ [WriteTo pc payload tgtUDPAddr]
                                           @ (case ev_write e of
                                                Some err \<Rightarrow> [Logf ''UDP remote write error'']
                                              | None \<Rightarrow> []),
                                         st1\<lparr>st_nm := nm'\<rparr>, Continue))))))))"

text \<open>
  The start of each ingress takes from the environment the resolver
  \<^verbatim>\<open>net.ResolveUDPAddr\<close>, the result of \<^verbatim>\<open>net.ListenUDP\<close> and the configured
  \<^verbatim>\<open>config.UDPTimeout\<close>. A failure is logged and the function returns.
\<close>

record startup =
  su_resolve :: "string \<Rightarrow> error + net_Addr"
  su_listen :: "net_Addr \<Rightarrow> error + conn"
  su_timeout :: int

definition udpLocal :: "extern \<Rightarrow> startup \<Rightarrow> string \<Rightarrow> string \<Rightarrow> string \<Rightarrow> (conn \<Rightarrow> conn)
                        \<Rightarrow> event list \<Rightarrow> effect list list \<times> ctl" where
  "udpLocal x su laddr server target shadow es =
     (case su_resolve su server of
        Inl err \<Rightarrow> ([[Logf ''UDP server address error'']], Return err)
      | Inr srvAddr \<Rightarrow>
          (case ParseAddr x target of
             None \<Rightarrow> ([[Logf ''UDP target address error'']], Return InvalidTarget)
           | Some tgt \<Rightarrow>
               (case su_resolve su laddr of
                  Inl err \<Rightarrow> ([[Logf ''UDP listen address error'']], Return err)
                | Inr lnAddr \<Rightarrow>
                    (case su_listen su lnAddr of
                       Inl err \<Rightarrow> ([[Logf ''UDP local listen error'']], Return err)
                     | Inr c \<Rightarrow>
                         (let nm = newNATmap (su_timeout su);
                              buf = go_copy (make_bytes udpBufSize) 0 tgt in
                          case run_loop (udpLocal_iter c srvAddr tgt shadow)
                                 \<lparr>st_nm = nm, st_buf = buf\<rparr> es of
                            (tr, s, k) \<Rightarrow> ([Logf ''UDP tunnel''] # tr, k))))))"

definition udpSocksLocal :: "startup \<Rightarrow> string \<Rightarrow> string \<Rightarrow> (conn \<Rightarrow> conn)
                             \<Rightarrow> event list \<Rightarrow> effect list list \<times> ctl" where
  "udpSocksLocal su laddr server shadow es =
     (case su_resolve su server of
        Inl err \<Rightarrow> ([[Logf ''UDP server address error'']], Return err)
      | Inr srvAddr \<Rightarrow>
          (case su_resolve su laddr of
             Inl err \<Rightarrow> ([[Logf ''UDP listen address error'']], Return err)
           | Inr lnAddr \<Rightarrow>
               (case su_listen su lnAddr of
                  Inl err \<Rightarrow> ([[Logf ''UDP local listen error'']], Return err)
                | Inr c \<Rightarrow>
                    (let nm = newNATmap (su_timeout su);
                         buf = make_bytes udpBufSize in
                     case run_loop (udpSocksLocal_iter c srvAddr shadow)
                            \<lparr>st_nm = nm, st_buf = buf\<rparr> es of
                       (tr, s, k) \<Rightarrow> ([] # tr, k)))))"

definition udpRemote :: "startup \<Rightarrow> string \<Rightarrow> (conn \<Rightarrow> conn)
                         \<Rightarrow> event list \<Rightarrow> effect list list \<times> ctl" where
  "udpRemote su addr shadow es =
     (case su_resolve su addr of
        Inl err \<Rightarrow> ([[Logf ''UDP server address error'']], Return err)
      | Inr nAddr \<Rightarrow>
          (case su_listen su nAddr of
             Inl err \<Rightarrow> ([[Logf ''UDP remote listen error'']], Return err)
           | Inr cc \<Rightarrow>
               (let pc = shadow cc;
                    nm = newNATmap (su_timeout su);
                    buf = make_bytes udpBufSize in
                case run_loop (udpRemote_iter pc) \<lparr>st_nm = nm, st_buf = buf\<rparr> es of
                  (tr, s, k) \<Rightarrow> ([Logf ''listening UDP''] # tr, k))))"

text \<open>Any one of the three ingress loops, with what it was started with.\<close>

datatype ingress =
    LocalIngress conn net_Addr "byte list" "conn \<Rightarrow> conn"
  | SocksIngress conn net_Addr "conn \<Rightarrow> conn"
  | RemoteIngress conn

fun ingress_iter :: "ingress \<Rightarrow> loop_state \<Rightarrow> event \<Rightarrow> effect list \<times> loop_state \<times> ctl" where
  "ingress_iter (LocalIngress c srvAddr tgt shadow) = udpLocal_iter c srvAddr tgt shadow"
| "ingress_iter (SocksIngress c srvAddr shadow) = udpSocksLocal_iter c srvAddr shadow"
| "ingress_iter (RemoteIngress tunnel) = udpRemote_iter tunnel"

subsection \<open>Reading a trace\<close>

text \<open>The datagrams an effect list hands to \<^verbatim>\<open>WriteTo\<close>: connection, bytes, address.\<close>

fun writes :: "effect list \<Rightarrow> (conn \<times> byte list \<times> net_Addr) list" where
  "writes [] = []"
| "writes (WriteTo pc bs to # fx) = (pc, bs, to) # writes fx"
| "writes (other # fx) = writes fx"


fun created :: "effect list \<Rightarrow> (netip_AddrPort \<times> conn) list" where
  "created [] = []"
| "created (Go peer dst src timeout role # fx) = (peer, src) # created fx"
| "created (other # fx) = created fx"



text \<open>
  The datagram of an event passes the checks that the ingress itself makes before it looks
  up the session, for a receive buffer of \<open>n\<close> bytes: the transparent ingress needs room
  for its target in the buffer, the SOCKS5 ingress needs the 3 bytes of the header, and the
  server ingress needs a Wire Address that splits off and resolves.
\<close>

fun passes :: "ingress \<Rightarrow> nat \<Rightarrow> event \<Rightarrow> bool" where
  "passes (LocalIngress c srvAddr tgt shadow) n e = (length tgt \<le> n)"
| "passes (SocksIngress c srvAddr shadow) n e =
     (case ev_read e of Inl err \<Rightarrow> False | Inr (d, a) \<Rightarrow> 3 \<le> length d \<and> 3 \<le> n)"
| "passes (RemoteIngress tunnel) n e =
     (case ev_read e of
        Inl err \<Rightarrow> False
      | Inr (d, a) \<Rightarrow>
          (case SplitAddr (take n d) of
             None \<Rightarrow> False
           | Some tgtAddr \<Rightarrow> (case ev_resolve e tgtAddr of Inl err \<Rightarrow> False | Inr t \<Rightarrow> True)))"

text \<open>
  Two loop states with the same table and receive buffers of the same length; the bytes
  in the buffers may differ.
\<close>

definition same_table :: "loop_state \<Rightarrow> loop_state \<Rightarrow> bool" where
  "same_table s t = (st_nm s = st_nm t \<and> length (st_buf s) = length (st_buf t))"

section \<open>Properties\<close>

subsection \<open>Slices, copies and the role transforms\<close>

lemma writes_append: "writes (xs @ ys) = writes xs @ writes ys"
  by (induction xs rule: writes.induct) simp_all

lemma length_go_copy: "off \<le> length b \<Longrightarrow> length (go_copy b off src) = length b"
  by (simp add: go_copy_def)

lemma length_read_into: "off \<le> length b \<Longrightarrow> length (read_into b off d) = length b"
  by (simp add: read_into_def length_go_copy)

lemma take_read_into_0: "take (read_n b 0 d) (read_into b 0 d) = take (length b) d"
  by (simp add: read_into_def read_n_def go_copy_def min_def)

lemma slice_read_0:
  "slice (read_into b 0 d) 0 (read_n b 0 d) = Some (take (length b) d)"
  by (simp add: slice_def length_read_into take_read_into_0) (simp add: read_n_def)

lemma remoteServer_splice:
  assumes "n \<le> length buf"
    and "length (addr_bytes (ParseAddr x (Addr_String x addr))) + n \<le> length buf"
  shows "\<exists>buf2. role_switch x remoteServer buf n addr
           = Some (addr_bytes (ParseAddr x (Addr_String x addr)) @ take n buf, buf2)"
proof -
  define a where "a = addr_bytes (ParseAddr x (Addr_String x addr))"
  have ln: "length a + n \<le> length buf" using assms(2) by (simp add: a_def)
  have b1: "go_copy buf (length a) (take n buf)
            = take (length a) buf @ take n buf @ drop (length a + n) buf"
  proof -
    have "min n (length buf - length a) = n" "min (length buf - length a) n = n"
      using ln by arith+
    moreover have "min (length buf) n = n" using assms(1) by arith
    ultimately show ?thesis by (simp add: go_copy_def add.commute)
  qed
  have l1: "length (go_copy buf (length a) (take n buf)) = length buf"
    using ln by (simp add: length_go_copy)
  have b2: "go_copy (go_copy buf (length a) (take n buf)) 0 a
            = a @ take n buf @ drop (length a + n) buf"
    using ln assms(1) by (simp add: go_copy_def [of _ 0] l1) (simp add: b1)
  have "take (length a + n) (a @ take n buf @ drop (length a + n) buf) = a @ take n buf"
    using assms(1) by (simp add: min_def)
  then show ?thesis
    using ln assms(1) l1
    by (simp add: role_switch_def slice_def Let_def a_def [symmetric] b2 length_go_copy)
qed

lemma remoteServer_overflow:
  assumes "length (addr_bytes (ParseAddr x (Addr_String x addr))) + n > length buf"
  shows "role_switch x remoteServer buf n addr = None"
  using assms
  by (auto simp add: role_switch_def slice_def Let_def go_copy_def min_def split: option.splits if_splits)

lemma take_addr_prefix: "take_addr b k = Some a \<Longrightarrow> a = take k b \<and> k \<le> length b"
  by (auto simp: take_addr_def split: if_splits)

lemma SplitAddr_prefix:
  assumes "SplitAddr b = Some a"
  shows "\<exists>w. b = a @ w"
proof -
  from assms obtain k where "take_addr b k = Some a"
    by (auto simp: SplitAddr_def split: list.splits if_splits)
  then have "a = take k b" by (simp add: take_addr_prefix)
  then have "b = a @ drop k b" by simp
  then show ?thesis ..
qed


lemma socksClient_switch:
  "n \<le> length buf \<Longrightarrow> role_switch x socksClient buf n addr = Some ([0, 0, 0] @ take n buf, buf)"
  by (simp add: role_switch_def slice_def)

lemma timedCopy_iter_socksClient:
  assumes "tc_read e = Inr (q, from)"
  shows "\<exists>fx buf' k. timedCopy_iter x dst udpTarget src timeout socksClient buf e = (fx, buf', k)
           \<and> k \<noteq> Panic \<and> writes fx = [(dst, [0, 0, 0] @ take (length buf) q, udpTarget)]"
proof -
  let ?b = "read_into buf 0 q" and ?n = "read_n buf 0 q"
  have n: "?n \<le> length ?b" by (simp add: read_n_def length_read_into)
  have t: "take ?n ?b = take (length buf) q" by (rule take_read_into_0)
  show ?thesis
    using assms socksClient_switch [OF n, of x "from"] t
    by (cases "tc_write e") (simp_all add: timedCopy_iter_def Let_def)
qed

lemma udpSocksLocal_iter_reaches_write:
  assumes "3 \<le> length (st_buf st)"
    and "ev_read e = Inr (d, addr)"
    and "udpAddrToNetip addr = (raddr, None)"
    and "natmap_Get (st_nm st) raddr = Some pc \<or> ev_listen e = Inr pc0"
  shows "3 \<le> length d \<Longrightarrow>
           \<exists>fx st'. udpSocksLocal_iter c srvAddr shadow st e = (fx, st', Continue)
             \<and> writes fx = [(case natmap_Get (st_nm st) raddr of Some pc' \<Rightarrow> pc' | None \<Rightarrow> shadow pc0,
                             drop 3 (take (length (st_buf st)) d), srvAddr)]"
    and "length d < 3 \<Longrightarrow>
           \<exists>fx st'. udpSocksLocal_iter c srvAddr shadow st e = (fx, st', Panic) \<and> writes fx = []"
proof -
  let ?b = "read_into (st_buf st) 0 d" and ?n = "read_n (st_buf st) 0 d"
  have l: "length ?b = length (st_buf st)" by (simp add: length_read_into)
  have t: "take ?n ?b = take (length (st_buf st)) d" by (rule take_read_into_0)
  have s3: "slice ?b 3 (length ?b) \<noteq> None" using assms(1) l by (simp add: slice_def)
  {
    assume "3 \<le> length d"
    then have "3 \<le> ?n" using assms(1) by (simp add: read_n_def)
    then have "slice ?b 3 ?n = Some (drop 3 (take (length (st_buf st)) d))"
      using t l by (simp add: slice_def) (simp add: read_n_def)
    then show "\<exists>fx st'. udpSocksLocal_iter c srvAddr shadow st e = (fx, st', Continue)
             \<and> writes fx = [(case natmap_Get (st_nm st) raddr of Some pc' \<Rightarrow> pc' | None \<Rightarrow> shadow pc0,
                             drop 3 (take (length (st_buf st)) d), srvAddr)]"
      using assms(2-4) s3
      by (auto simp: udpSocksLocal_iter_def Let_def natmap_Get_def natmap_Add_def writes_append
               split: option.splits sum.splits)
  }
  {
    assume "length d < 3"
    then have "?n < 3" by (simp add: read_n_def)
    then have "slice ?b 3 ?n = None" by (simp add: slice_def)
    then show "\<exists>fx st'. udpSocksLocal_iter c srvAddr shadow st e = (fx, st', Panic) \<and> writes fx = []"
      using assms(2-4) s3
      by (auto simp: udpSocksLocal_iter_def Let_def natmap_Get_def natmap_Add_def writes_append
               split: option.splits sum.splits)
  }
qed


subsection \<open>Address Adapter\<close>

lemma To4_None_length: "To4 ip = None \<Longrightarrow> length ip \<noteq> 4"
  by (simp add: To4_def split: if_splits)

text \<open>
  Claim C8. A transport address that is not a UDP address, or whose IP bytes do not print
  to a parsable address (they are neither 4 nor 16 bytes long), yields an error together
  with the zero AddrPort; every UDP address with a 4- or 16-byte IP yields no error and the
  canonical pair: the IPv4 form for 4 bytes and for IPv4-in-IPv6, the IPv6 form otherwise,
  with the port truncated to 16 bits. An error is returned in no other case.
\<close>

theorem udpAddrToNetip_adapter:
  "udpAddrToNetip (OtherAddr s) = (zero_AddrPort, Some NotUDPAddr)
   \<and> (length ip \<noteq> 4 \<and> length ip \<noteq> 16 \<longrightarrow>
        udpAddrToNetip (UDPAddr ip port zone) = (zero_AddrPort, Some InvalidIP))
   \<and> (length ip = 4 \<longrightarrow>
        udpAddrToNetip (UDPAddr ip port zone) = ((Addr4 ip, word_of_int port), None))
   \<and> (length ip = 16 \<and> To4 ip \<noteq> None \<longrightarrow>
        udpAddrToNetip (UDPAddr ip port zone) = ((Addr4 (drop 12 ip), word_of_int port), None))
   \<and> (length ip = 16 \<and> To4 ip = None \<longrightarrow>
        udpAddrToNetip (UDPAddr ip port zone) = ((Addr6 ip, word_of_int port), None))
   \<and> (snd (udpAddrToNetip a) = None \<longleftrightarrow>
        (\<exists>ip' port' zone'. a = UDPAddr ip' port' zone' \<and> (length ip' = 4 \<or> length ip' = 16)))
   \<and> (snd (udpAddrToNetip a) \<noteq> None \<longrightarrow> fst (udpAddrToNetip a) = zero_AddrPort)"
proof (intro conjI impI)
  show "udpAddrToNetip (OtherAddr s) = (zero_AddrPort, Some NotUDPAddr)"
    by (simp add: udpAddrToNetip_def)
next
  assume "length ip \<noteq> 4 \<and> length ip \<noteq> 16"
  then show "udpAddrToNetip (UDPAddr ip port zone) = (zero_AddrPort, Some InvalidIP)"
    by (simp add: udpAddrToNetip_def IP_String_def)
next
  assume "length ip = 4"
  then show "udpAddrToNetip (UDPAddr ip port zone) = ((Addr4 ip, word_of_int port), None)"
    by (simp add: udpAddrToNetip_def IP_String_def To4_def IsValid_def AddrPortFrom_def)
next
  assume "length ip = 16 \<and> To4 ip \<noteq> None"
  then show "udpAddrToNetip (UDPAddr ip port zone)
             = ((Addr4 (drop 12 ip), word_of_int port), None)"
    by (auto simp: udpAddrToNetip_def IP_String_def To4_def IsValid_def AddrPortFrom_def
             split: if_splits)
next
  assume "length ip = 16 \<and> To4 ip = None"
  then show "udpAddrToNetip (UDPAddr ip port zone) = ((Addr6 ip, word_of_int port), None)"
    by (simp add: udpAddrToNetip_def IP_String_def IsValid_def AddrPortFrom_def)
next
  show "snd (udpAddrToNetip a) = None \<longleftrightarrow>
        (\<exists>ip' port' zone'. a = UDPAddr ip' port' zone' \<and> (length ip' = 4 \<or> length ip' = 16))"
    by (cases a)
       (auto simp: udpAddrToNetip_def IP_String_def IsValid_def AddrPortFrom_def
             split: option.splits dest: To4_None_length)
next
  assume "snd (udpAddrToNetip a) \<noteq> None"
  then show "fst (udpAddrToNetip a) = zero_AddrPort"
    by (cases a)
       (auto simp: udpAddrToNetip_def IP_String_def IsValid_def AddrPortFrom_def
             split: option.splits if_splits)
qed

theorem udpAddrToNetip_adapter_witness:
  "udpAddrToNetip (UDPAddr [] 53 []) = (zero_AddrPort, Some InvalidIP)
   \<and> udpAddrToNetip (UDPAddr [10, 0, 0, 1] 53 []) = ((Addr4 [10, 0, 0, 1], 53), None)
   \<and> udpAddrToNetip (UDPAddr [0, 0, 0, 0, 0, 0, 0, 0, 0, 0, 255, 255, 10, 0, 0, 1] 65589 [])
       = ((Addr4 [10, 0, 0, 1], 53), None)
   \<and> udpAddrToNetip (UDPAddr [32, 1, 13, 184, 0, 0, 0, 0, 0, 0, 0, 0, 0, 0, 0, 1] 53 [])
       = ((Addr6 [32, 1, 13, 184, 0, 0, 0, 0, 0, 0, 0, 0, 0, 0, 0, 1], 53), None)
   \<and> snd (udpAddrToNetip (OtherAddr ''@'')) \<noteq> None
   \<and> fst (udpAddrToNetip (OtherAddr ''@'')) = zero_AddrPort"
proof -
  have r: "replicate 10 (0::byte) = [0, 0, 0, 0, 0, 0, 0, 0, 0, 0]"
    by (simp add: numeral_eq_Suc)
  show ?thesis
    using udpAddrToNetip_adapter [of "''@''" "[]" 53 "[]" "OtherAddr ''@''"]
      udpAddrToNetip_adapter [of "''@''" "[10, 0, 0, 1]" 53 "[]" "OtherAddr ''@''"]
      udpAddrToNetip_adapter [of "''@''" "[0, 0, 0, 0, 0, 0, 0, 0, 0, 0, 255, 255, 10, 0, 0, 1]"
                               65589 "[]" "OtherAddr ''@''"]
      udpAddrToNetip_adapter [of "''@''" "[32, 1, 13, 184, 0, 0, 0, 0, 0, 0, 0, 0, 0, 0, 0, 1]"
                               53 "[]" "OtherAddr ''@''"]
    by (simp add: To4_def r)
qed

subsection \<open>Reverse transforms of the session relay loop\<close>



lemma timedCopy_iter_remoteServer:
  assumes "tc_read e = Inr (d, from)"
    and "length (addr_bytes (ParseAddr x (Addr_String x from))) + read_n buf 0 d \<le> length buf"
  shows "\<exists>fx buf' k. timedCopy_iter x dst udpTarget src timeout remoteServer buf e = (fx, buf', k)
           \<and> k \<noteq> Panic
           \<and> writes fx = [(dst, addr_bytes (ParseAddr x (Addr_String x from)) @ take (length buf) d,
                           udpTarget)]"
proof -
  let ?b = "read_into buf 0 d" and ?n = "read_n buf 0 d"
  have n: "?n \<le> length ?b" by (simp add: read_n_def length_read_into)
  have l: "length ?b = length buf" by (simp add: length_read_into)
  have t: "take ?n ?b = take (length buf) d" by (rule take_read_into_0)
  from remoteServer_splice [OF n, of x "from"] assms(2) l t
  obtain buf2 where "role_switch x remoteServer ?b ?n from
      = Some (addr_bytes (ParseAddr x (Addr_String x from)) @ take (length buf) d, buf2)"
    by auto
  then show ?thesis
    using assms(1) by (cases "tc_write e") (simp_all add: timedCopy_iter_def Let_def)
qed

lemma timedCopy_iter_remoteServer_panic:
  assumes "tc_read e = Inr (d, from)"
    and "length (addr_bytes (ParseAddr x (Addr_String x from))) + read_n buf 0 d > length buf"
  shows "timedCopy_iter x dst udpTarget src timeout remoteServer buf e
         = ([SetReadDeadline src (tc_now e + timeout), ReadFrom src], read_into buf 0 d, Panic)"
proof -
  have "role_switch x remoteServer (read_into buf 0 d) (read_n buf 0 d) from = None"
    using assms(2) by (intro remoteServer_overflow) (simp add: length_read_into)
  then show ?thesis using assms(1) by (simp add: timedCopy_iter_def Let_def)
qed

text \<open>
  Claim C1. In a remoteServer session the datagram written is the Wire Address of the source
  followed by the payload read, \<open>encode(A) \<parallel> buf[:n]\<close>, for every datagram read. The lemma
  \<open>timedCopy_iter_remoteServer\<close> above shows this whenever the address and the payload
  together fit the 64 KiB buffer that the splice is done in. Here a datagram of 65520 bytes
  arrives from an IPv6 source, whose Wire Address has 19 bytes: the first \<^verbatim>\<open>copy\<close> stores
  only the bytes that fit, \<^verbatim>\<open>buf[:len(srcAddr)+n]\<close> is out of range, the goroutine
  panics and nothing is written.
\<close>

theorem timedCopy_remoteServer_full_datagram_panics:
  "fst (timedCopy
         \<lparr>ParseAddr = (\<lambda>s. Some ([4, 32, 1, 13, 184, 0, 0, 0, 0, 0, 0, 0, 0, 0, 0, 0, 1, 0, 53])),
          Addr_String = (\<lambda>a. ''[2001:db8::1]:53'')\<rparr>
         1 (Addr4 [10, 0, 0, 2], 5353) 2 60 remoteServer
         [\<lparr>tc_now = 100,
           tc_read = Inr (replicate 65520 7,
                          UDPAddr [32, 1, 13, 184, 0, 0, 0, 0, 0, 0, 0, 0, 0, 0, 0, 1] 53 []),
           tc_write = None\<rparr>])
     = [[SetReadDeadline 2 160, ReadFrom 2]]
   \<and> snd (snd (timedCopy
         \<lparr>ParseAddr = (\<lambda>s. Some ([4, 32, 1, 13, 184, 0, 0, 0, 0, 0, 0, 0, 0, 0, 0, 0, 1, 0, 53])),
          Addr_String = (\<lambda>a. ''[2001:db8::1]:53'')\<rparr>
         1 (Addr4 [10, 0, 0, 2], 5353) 2 60 remoteServer
         [\<lparr>tc_now = 100,
           tc_read = Inr (replicate 65520 7,
                          UDPAddr [32, 1, 13, 184, 0, 0, 0, 0, 0, 0, 0, 0, 0, 0, 0, 1] 53 []),
           tc_write = None\<rparr>])) = Panic"
  by (simp add: timedCopy_def Let_def timedCopy_iter_remoteServer_panic read_n_def make_bytes_def
                udpBufSize_def)

subsection \<open>SOCKS5-mode local ingress\<close>

lemma udpSocksLocal_iter_no_panic:
  assumes "3 \<le> length (st_buf st)" and "ev_read e = Inr (d, addr)" and "3 \<le> length d"
  shows "snd (snd (udpSocksLocal_iter c srvAddr shadow st e)) = Continue"
proof -
  let ?b = "read_into (st_buf st) 0 d" and ?n = "read_n (st_buf st) 0 d"
  have l: "length ?b = length (st_buf st)" by (simp add: length_read_into)
  have "slice ?b 3 (length ?b) \<noteq> None" using assms(1) l by (simp add: slice_def)
  moreover have "slice ?b 3 ?n \<noteq> None"
    using assms(1,3) l by (simp add: slice_def read_n_def)
  ultimately show ?thesis
    using assms(2)
    by (auto simp: udpSocksLocal_iter_def Let_def natmap_Add_def
             split: option.splits sum.splits prod.splits)
qed

text \<open>
  Claim C4. For every datagram of length n read by the SOCKS5-mode ingress, the bytes
  written to the server are bytes 3 to n-1 of the datagram. The lemma
  \<open>udpSocksLocal_iter_reaches_write\<close> above shows this for every datagram of at least 3
  bytes. Here the ingress is started and the first datagram it receives has 2 bytes: a
  session is created for the sender, then \<^verbatim>\<open>buf[3:n]\<close> is out of range, the loop panics
  and nothing is written.
\<close>

theorem udpSocksLocal_short_datagram_panics:
  "udpSocksLocal
     \<lparr>su_resolve = (\<lambda>s. Inr (UDPAddr [10, 0, 0, 3] 8388 [])), su_listen = (\<lambda>a. Inr 1),
      su_timeout = 60\<rparr>
     ''127.0.0.1:1080'' ''10.0.0.3:8388'' (\<lambda>pc. pc)
     [\<lparr>ev_read = Inr ([0, 0], UDPAddr [10, 0, 0, 2] 5353 []),
       ev_resolve = (\<lambda>w. Inl (IOError [])), ev_listen = Inr 7, ev_write = None\<rparr>]
   = ([[], [ReadFrom 1, ListenPacket, Logf ''UDP socks tunnel'',
           Go (Addr4 [10, 0, 0, 2], 5353) 1 7 60 socksClient]], Panic)"
  by (simp add: udpSocksLocal_def udpSocksLocal_iter_def Let_def newNATmap_def natmap_Get_def
        natmap_Add_def natmap_Set_def udpAddrToNetip_def IP_String_def To4_def IsValid_def
        AddrPortFrom_def slice_def length_read_into read_n_def make_bytes_def udpBufSize_def)

text \<open>
  Claim C10. The per-datagram handling of the SOCKS5-mode ingress is total only from 3
  bytes on: for every read of \<open>n \<ge> 3\<close> bytes both \<^verbatim>\<open>buf[3:]\<close> and \<^verbatim>\<open>buf[3:n]\<close>
  are in bounds and the iteration ends with the next iteration; and there is a received
  datagram with \<open>n < 3\<close> for which \<^verbatim>\<open>buf[3:n]\<close> is out of bounds and the iteration
  panics.
\<close>

theorem udpSocksLocal_total_only_from_3_bytes:
  "(\<forall>st e d addr.
      length (st_buf st) = udpBufSize \<and> ev_read e = Inr (d, addr) \<and> 3 \<le> read_n (st_buf st) 0 d \<longrightarrow>
        slice (read_into (st_buf st) 0 d) 3 (length (read_into (st_buf st) 0 d)) \<noteq> None
      \<and> slice (read_into (st_buf st) 0 d) 3 (read_n (st_buf st) 0 d) \<noteq> None
      \<and> snd (snd (udpSocksLocal_iter c srvAddr shadow st e)) = Continue)
   \<and> (\<exists>st e d addr.
        length (st_buf st) = udpBufSize \<and> ev_read e = Inr (d, addr) \<and> read_n (st_buf st) 0 d < 3
      \<and> slice (read_into (st_buf st) 0 d) 3 (read_n (st_buf st) 0 d) = None
      \<and> snd (snd (udpSocksLocal_iter c srvAddr shadow st e)) = Panic)"
proof (intro conjI allI impI)
  fix st :: loop_state and e :: event and d :: "byte list" and addr :: net_Addr
  assume h: "length (st_buf st) = udpBufSize \<and> ev_read e = Inr (d, addr)
             \<and> 3 \<le> read_n (st_buf st) 0 d"
  then have b3: "3 \<le> length (st_buf st)" and d3: "3 \<le> length d"
    by (simp_all add: udpBufSize_def read_n_def)
  have l: "length (read_into (st_buf st) 0 d) = length (st_buf st)"
    by (simp add: length_read_into)
  show "slice (read_into (st_buf st) 0 d) 3 (length (read_into (st_buf st) 0 d)) \<noteq> None"
    using b3 l by (simp add: slice_def)
  show "slice (read_into (st_buf st) 0 d) 3 (read_n (st_buf st) 0 d) \<noteq> None"
    using h l by (simp add: slice_def read_n_def)
  show "snd (snd (udpSocksLocal_iter c srvAddr shadow st e)) = Continue"
    using h b3 d3 by (simp add: udpSocksLocal_iter_no_panic)
next
  let ?st = "\<lparr>st_nm = newNATmap 60, st_buf = make_bytes udpBufSize\<rparr>"
  let ?a = "UDPAddr [10, 0, 0, 2] 5353 []"
  let ?e = "\<lparr>ev_read = Inr ([0, 0], ?a), ev_resolve = (\<lambda>w. Inl (IOError [])),
            ev_listen = Inr 7, ev_write = None\<rparr>"
  have b: "length (st_buf ?st) = udpBufSize" by (simp add: make_bytes_def)
  have b3: "3 \<le> length (st_buf ?st)" by (simp add: make_bytes_def udpBufSize_def)
  have r: "ev_read ?e = Inr ([0, 0], ?a)" by simp
  have u: "udpAddrToNetip ?a = ((Addr4 [10, 0, 0, 2], 5353), None)"
    by (simp add: udpAddrToNetip_def IP_String_def To4_def IsValid_def AddrPortFrom_def)
  have g: "natmap_Get (st_nm ?st) (Addr4 [10, 0, 0, 2], 5353) = Some 0 \<or> ev_listen ?e = Inr 7"
    by simp
  from udpSocksLocal_iter_reaches_write(2) [OF b3 r u g, of c srvAddr shadow]
  have p: "snd (snd (udpSocksLocal_iter c srvAddr shadow ?st ?e)) = Panic" by auto
  have n: "read_n (st_buf ?st) 0 [0, 0] < 3" by (simp add: read_n_def)
  then have s: "slice (read_into (st_buf ?st) 0 [0, 0]) 3 (read_n (st_buf ?st) 0 [0, 0]) = None"
    by (simp add: slice_def)
  show "\<exists>st e d addr.
        length (st_buf st) = udpBufSize \<and> ev_read e = Inr (d, addr) \<and> read_n (st_buf st) 0 d < 3
      \<and> slice (read_into (st_buf st) 0 d) 3 (read_n (st_buf st) 0 d) = None
      \<and> snd (snd (udpSocksLocal_iter c srvAddr shadow st e)) = Panic"
    using b r n s p by blast
qed

theorem udpSocksLocal_total_only_from_3_bytes_witness:
  "length (st_buf \<lparr>st_nm = newNATmap 60, st_buf = make_bytes udpBufSize\<rparr>) = udpBufSize
   \<and> 3 \<le> read_n (st_buf \<lparr>st_nm = newNATmap 60, st_buf = make_bytes udpBufSize\<rparr>) 0
            [0, 0, 0, 1, 93, 184, 216, 34, 0, 80, 104, 105]
   \<and> snd (snd (udpSocksLocal_iter 1 (UDPAddr [10, 0, 0, 3] 8388 []) (\<lambda>pc. pc)
        \<lparr>st_nm = newNATmap 60, st_buf = make_bytes udpBufSize\<rparr>
        \<lparr>ev_read = Inr ([0, 0, 0, 1, 93, 184, 216, 34, 0, 80, 104, 105], UDPAddr [10, 0, 0, 2] 5353 []),
         ev_resolve = (\<lambda>w. Inl (IOError [])), ev_listen = Inr 7, ev_write = None\<rparr>)) = Continue"
proof -
  let ?st = "\<lparr>st_nm = newNATmap 60, st_buf = make_bytes udpBufSize\<rparr>"
  let ?d = "[0, 0, 0, 1, 93, 184, 216, 34, 0, 80, 104, 105] :: byte list"
  let ?e = "\<lparr>ev_read = Inr (?d, UDPAddr [10, 0, 0, 2] 5353 []),
            ev_resolve = (\<lambda>w. Inl (IOError [])), ev_listen = Inr 7, ev_write = None\<rparr>"
  have h: "length (st_buf ?st) = udpBufSize \<and> ev_read ?e = Inr (?d, UDPAddr [10, 0, 0, 2] 5353 [])
           \<and> 3 \<le> read_n (st_buf ?st) 0 ?d"
    by (simp add: make_bytes_def read_n_def udpBufSize_def)
  from udpSocksLocal_total_only_from_3_bytes
         [where c = 1 and srvAddr = "UDPAddr [10, 0, 0, 3] 8388 []" and shadow = "\<lambda>pc. pc"]
  have "\<forall>st e d addr.
      length (st_buf st) = udpBufSize \<and> ev_read e = Inr (d, addr) \<and> 3 \<le> read_n (st_buf st) 0 d \<longrightarrow>
        slice (read_into (st_buf st) 0 d) 3 (length (read_into (st_buf st) 0 d)) \<noteq> None
      \<and> slice (read_into (st_buf st) 0 d) 3 (read_n (st_buf st) 0 d) \<noteq> None
      \<and> snd (snd (udpSocksLocal_iter 1 (UDPAddr [10, 0, 0, 3] 8388 []) (\<lambda>pc. pc) st e)) = Continue"
    by (rule conjunct1)
  then have "snd (snd (udpSocksLocal_iter 1 (UDPAddr [10, 0, 0, 3] 8388 []) (\<lambda>pc. pc) ?st ?e)) = Continue"
    using h by blast
  then show ?thesis using h by simp
qed

subsection \<open>Transparent-mode local ingress\<close>

lemma run_loop_invariant:
  assumes step: "\<forall>s e fx s' k. I s \<and> body s e = (fx, s', k) \<longrightarrow> k = Continue \<and> I s' \<and> P e fx"
    and "I s"
    and "run_loop body s es = (tr, s', k)"
  shows "k = Continue \<and> I s' \<and> length tr = length es \<and> (\<forall>i<length es. P (es ! i) (tr ! i))"
  using assms(2,3)
proof (induction es arbitrary: s tr s' k)
  case Nil
  then show ?case by simp
next
  case (Cons e es)
  obtain fx s1 k1 where b: "body s e = (fx, s1, k1)" by (cases "body s e") auto
  from step Cons.prems(1) b have k1: "k1 = Continue" and i1: "I s1" and p: "P e fx"
    by blast+
  obtain tr2 s2 k2 where r: "run_loop body s1 es = (tr2, s2, k2)"
    by (cases "run_loop body s1 es") auto
  from Cons.prems(2) b k1 r have eq: "tr = fx # tr2" "s' = s2" "k = k2" by auto
  from Cons.IH [OF i1 r]
  have ih: "k2 = Continue" "I s2" "length tr2 = length es" "\<forall>i<length es. P (es ! i) (tr2 ! i)"
    by auto
  have "\<forall>i<length (e # es). P ((e # es) ! i) (tr ! i)"
  proof (intro allI impI)
    fix i assume "i < length (e # es)"
    then show "P ((e # es) ! i) (tr ! i)"
      using p ih(4) eq(1) by (cases i) auto
  qed
  then show ?case using eq ih by simp
qed

lemma take_read_into_off:
  assumes "off \<le> length b"
  shows "take (off + read_n b off d) (read_into b off d) = take off b @ take (length b - off) d"
proof -
  have "min (length b) off = off" using assms by simp
  then show ?thesis
    by (simp add: read_into_def read_n_def go_copy_def min_def)
qed

lemma take_off_read_into:
  "off \<le> length b \<Longrightarrow> take off (read_into b off d) = take off b"
  by (simp add: read_into_def go_copy_def)

lemma udpLocal_iter_step:
  assumes "length tgt \<le> length (st_buf st)"
    and "take (length tgt) (st_buf st) = tgt"
    and "udpLocal_iter c srvAddr tgt shadow st e = (fx, st', k)"
  shows "k = Continue \<and> length (st_buf st') = length (st_buf st)
         \<and> take (length tgt) (st_buf st') = tgt
         \<and> (\<forall>d a. ev_read e = Inr (d, a) \<longrightarrow>
               (writes fx = [] \<or>
                (\<exists>pc. writes fx = [(pc, tgt @ take (length (st_buf st) - length tgt) d, srvAddr)]))
             \<and> (snd (udpAddrToNetip a) = None \<and> (\<exists>pc0. ev_listen e = Inr pc0) \<longrightarrow>
                (\<exists>pc. writes fx = [(pc, tgt @ take (length (st_buf st) - length tgt) d, srvAddr)])))"
proof -
  have s0: "slice (st_buf st) (length tgt) (length (st_buf st)) \<noteq> None"
    using assms(1) by (simp add: slice_def)
  have sl: "\<And>d. slice (read_into (st_buf st) (length tgt) d) 0
                  (length tgt + read_n (st_buf st) (length tgt) d)
               = Some (tgt @ take (length (st_buf st) - length tgt) d)"
  proof -
    fix d
    have "length tgt + read_n (st_buf st) (length tgt) d \<le> length (st_buf st)"
      using assms(1) by (simp add: read_n_def)
    then show "slice (read_into (st_buf st) (length tgt) d) 0
                  (length tgt + read_n (st_buf st) (length tgt) d)
               = Some (tgt @ take (length (st_buf st) - length tgt) d)"
      using assms(1,2) by (simp add: slice_def length_read_into take_read_into_off)
  qed
  show ?thesis
    using assms(3) s0 assms(1,2)
    by (auto simp: udpLocal_iter_def Let_def sl natmap_Add_def writes_append length_read_into
                   take_off_read_into
             split: option.splits sum.splits prod.splits)
qed

text \<open>
  Claim C3. Transparent-mode outbound framing, for every iteration of the read loop. Once
  \<^verbatim>\<open>udpLocal\<close> has started (both addresses resolve, the target parses to the Wire
  Address \<open>tgt\<close>, which fits the buffer as every Wire Address does, and the socket
  listens), it never returns nor panics, and in each iteration \<open>i\<close> whose read succeeds
  with a datagram \<open>d\<close>, of which \<open>take (udpBufSize - length tgt) d\<close> are the payload
  bytes read: whatever is written is one datagram, \<open>tgt\<close> followed by exactly those
  bytes, to the server address; and it is written whenever the sender's address converts
  and a session exists or can be created.
\<close>

theorem udpLocal_prepends_target:
  assumes "su_resolve su server = Inr srvAddr"
    and "ParseAddr x target = Some tgt"
    and "su_resolve su laddr = Inr lnAddr"
    and "su_listen su lnAddr = Inr c"
    and "length tgt \<le> udpBufSize"
  shows "\<exists>tr. udpLocal x su laddr server target shadow es = ([Logf ''UDP tunnel''] # tr, Continue)
           \<and> length tr = length es
           \<and> (\<forall>i<length es. \<forall>d a. ev_read (es ! i) = Inr (d, a) \<longrightarrow>
                 (writes (tr ! i) = [] \<or>
                  (\<exists>pc. writes (tr ! i) = [(pc, tgt @ take (udpBufSize - length tgt) d, srvAddr)]))
               \<and> (snd (udpAddrToNetip a) = None \<and> (\<exists>pc0. ev_listen (es ! i) = Inr pc0) \<longrightarrow>
                  (\<exists>pc. writes (tr ! i) = [(pc, tgt @ take (udpBufSize - length tgt) d, srvAddr)])))"
proof -
  let ?I = "\<lambda>s. length (st_buf s) = udpBufSize \<and> take (length tgt) (st_buf s) = tgt"
  let ?P = "\<lambda>e fx. \<forall>d a. ev_read e = Inr (d, a) \<longrightarrow>
                 (writes fx = [] \<or>
                  (\<exists>pc. writes fx = [(pc, tgt @ take (udpBufSize - length tgt) d, srvAddr)]))
               \<and> (snd (udpAddrToNetip a) = None \<and> (\<exists>pc0. ev_listen e = Inr pc0) \<longrightarrow>
                  (\<exists>pc. writes fx = [(pc, tgt @ take (udpBufSize - length tgt) d, srvAddr)]))"
  let ?s0 = "\<lparr>st_nm = newNATmap (su_timeout su),
              st_buf = go_copy (make_bytes udpBufSize) 0 tgt\<rparr>"
  have step: "\<forall>s e fx s' k. ?I s \<and> udpLocal_iter c srvAddr tgt shadow s e = (fx, s', k)
                \<longrightarrow> k = Continue \<and> ?I s' \<and> ?P e fx"
  proof (intro allI impI)
    fix s e fx s' k
    assume h: "?I s \<and> udpLocal_iter c srvAddr tgt shadow s e = (fx, s', k)"
    then have i: "?I s" and b: "udpLocal_iter c srvAddr tgt shadow s e = (fx, s', k)" by simp_all
    from i assms(5) have l: "length tgt \<le> length (st_buf s)" by simp
    from udpLocal_iter_step [OF l _ b] i show "k = Continue \<and> ?I s' \<and> ?P e fx" by simp
  qed
  have i0: "?I ?s0"
    using assms(5) by (simp add: go_copy_def make_bytes_def)
  obtain tr s' k where r: "run_loop (udpLocal_iter c srvAddr tgt shadow) ?s0 es = (tr, s', k)"
    by (cases "run_loop (udpLocal_iter c srvAddr tgt shadow) ?s0 es") auto
  from run_loop_invariant [where I = ?I and P = ?P, OF step i0 r]
  have "k = Continue" "length tr = length es" "\<forall>i<length es. ?P (es ! i) (tr ! i)"
    by blast+
  moreover have "udpLocal x su laddr server target shadow es = ([Logf ''UDP tunnel''] # tr, k)"
    using assms(1-4) r by (simp add: udpLocal_def Let_def)
  ultimately show ?thesis by blast
qed

theorem udpLocal_prepends_target_witness:
  "\<exists>tr pc. udpLocal
       \<lparr>ParseAddr = (\<lambda>s. Some [1, 93, 184, 216, 34, 0, 80]), Addr_String = (\<lambda>a. [])\<rparr>
       \<lparr>su_resolve = (\<lambda>s. Inr (UDPAddr [10, 0, 0, 3] 8388 [])), su_listen = (\<lambda>a. Inr 1),
        su_timeout = 60\<rparr>
       ''127.0.0.1:1053'' ''10.0.0.3:8388'' ''93.184.216.34:80'' (\<lambda>pc. pc)
       [\<lparr>ev_read = Inr ([104, 101, 108, 108, 111], UDPAddr [10, 0, 0, 2] 5353 []),
         ev_resolve = (\<lambda>w. Inl (IOError [])), ev_listen = Inr 7, ev_write = None\<rparr>]
     = ([Logf ''UDP tunnel''] # tr, Continue)
   \<and> writes (tr ! 0) = [(pc, [1, 93, 184, 216, 34, 0, 80, 104, 101, 108, 108, 111],
                          UDPAddr [10, 0, 0, 3] 8388 [])]"
proof -
  let ?x = "\<lparr>ParseAddr = (\<lambda>s. Some [1, 93, 184, 216, 34, 0, 80]), Addr_String = (\<lambda>a. [])\<rparr>"
  let ?su = "\<lparr>su_resolve = (\<lambda>s. Inr (UDPAddr [10, 0, 0, 3] 8388 [])), su_listen = (\<lambda>a. Inr 1),
        su_timeout = 60\<rparr>"
  let ?e = "\<lparr>ev_read = Inr ([104, 101, 108, 108, 111], UDPAddr [10, 0, 0, 2] 5353 []),
         ev_resolve = (\<lambda>w. Inl (IOError [])), ev_listen = Inr 7, ev_write = None\<rparr>"
  let ?tgt = "[1, 93, 184, 216, 34, 0, 80] :: byte list"
  have h1: "su_resolve ?su ''10.0.0.3:8388'' = Inr (UDPAddr [10, 0, 0, 3] 8388 [])" by simp
  have h2: "ParseAddr ?x ''93.184.216.34:80'' = Some ?tgt" by simp
  have h3: "su_resolve ?su ''127.0.0.1:1053'' = Inr (UDPAddr [10, 0, 0, 3] 8388 [])" by simp
  have h4: "su_listen ?su (UDPAddr [10, 0, 0, 3] 8388 []) = Inr 1" by simp
  have h5: "length ?tgt \<le> udpBufSize" by (simp add: udpBufSize_def)
  have u: "snd (udpAddrToNetip (UDPAddr [10, 0, 0, 2] 5353 [])) = None"
    by (simp add: udpAddrToNetip_def IP_String_def To4_def IsValid_def AddrPortFrom_def)
  from udpLocal_prepends_target [OF h1 h2 h3 h4 h5, of "\<lambda>pc. pc" "[?e]"]
  obtain tr where t: "udpLocal ?x ?su ''127.0.0.1:1053'' ''10.0.0.3:8388'' ''93.184.216.34:80''
                        (\<lambda>pc. pc) [?e] = ([Logf ''UDP tunnel''] # tr, Continue)"
    and w: "\<forall>i<length [?e]. \<forall>d a. ev_read ([?e] ! i) = Inr (d, a) \<longrightarrow>
                 (writes (tr ! i) = [] \<or>
                  (\<exists>pc. writes (tr ! i) = [(pc, ?tgt @ take (udpBufSize - length ?tgt) d,
                                            UDPAddr [10, 0, 0, 3] 8388 [])]))
               \<and> (snd (udpAddrToNetip a) = None \<and> (\<exists>pc0. ev_listen ([?e] ! i) = Inr pc0) \<longrightarrow>
                  (\<exists>pc. writes (tr ! i) = [(pc, ?tgt @ take (udpBufSize - length ?tgt) d,
                                            UDPAddr [10, 0, 0, 3] 8388 [])]))"
    by blast
  from w [rule_format, of 0 "[104, 101, 108, 108, 111]" "UDPAddr [10, 0, 0, 2] 5353 []"] u
  obtain pc where "writes (tr ! 0) = [(pc, ?tgt @ take (udpBufSize - length ?tgt)
                                         [104, 101, 108, 108, 111], UDPAddr [10, 0, 0, 3] 8388 [])]"
    by auto
  then have "writes (tr ! 0) = [(pc, [1, 93, 184, 216, 34, 0, 80, 104, 101, 108, 108, 111],
                          UDPAddr [10, 0, 0, 3] 8388 [])]"
    by (simp add: udpBufSize_def)
  with t show ?thesis by blast
qed

subsection \<open>Server-mode remote ingress\<close>

lemma SplitAddr_length:
  assumes "SplitAddr b = Some a"
  shows "length a \<le> length b"
  using SplitAddr_prefix [OF assms] by auto

lemma slice_read_payload:
  assumes "SplitAddr (take (length b) d) = Some a"
  shows "slice (read_into b 0 d) (length a) (read_n b 0 d)
         = Some (drop (length a) (take (length b) d))"
proof -
  have "length a \<le> length (take (length b) d)" using assms by (rule SplitAddr_length)
  then have "length a \<le> read_n b 0 d" by (simp add: read_n_def)
  moreover have "read_n b 0 d \<le> length (read_into b 0 d)"
    by (simp add: read_n_def length_read_into)
  ultimately show ?thesis by (simp add: slice_def take_read_into_0)
qed

lemma udpRemote_iter_read_error:
  "ev_read e = Inl err \<Longrightarrow>
     udpRemote_iter tunnel st e = ([ReadFrom tunnel, Logf ''UDP remote read error''], st, Continue)"
  by (simp add: udpRemote_iter_def)

lemma udpRemote_iter_address_error:
  "ev_read e = Inr (d, a) \<Longrightarrow> udpAddrToNetip a = (raddr, Some err) \<Longrightarrow>
     udpRemote_iter tunnel st e
     = ([ReadFrom tunnel, Logf ''Address conversion failed''],
        st\<lparr>st_buf := read_into (st_buf st) 0 d\<rparr>, Continue)"
  by (simp add: udpRemote_iter_def Let_def)

lemma udpRemote_iter_split_nil:
  "ev_read e = Inr (d, a) \<Longrightarrow> udpAddrToNetip a = (raddr, None) \<Longrightarrow>
   SplitAddr (take (length (st_buf st)) d) = None \<Longrightarrow>
     udpRemote_iter tunnel st e
     = ([ReadFrom tunnel, Logf ''failed to split target address from packet''],
        st\<lparr>st_buf := read_into (st_buf st) 0 d\<rparr>, Continue)"
  by (simp add: udpRemote_iter_def Let_def slice_read_0)

lemma udpRemote_iter_resolve_error:
  "ev_read e = Inr (d, a) \<Longrightarrow> udpAddrToNetip a = (raddr, None) \<Longrightarrow>
   SplitAddr (take (length (st_buf st)) d) = Some tgtAddr \<Longrightarrow>
   ev_resolve e tgtAddr = Inl err \<Longrightarrow>
     udpRemote_iter tunnel st e
     = ([ReadFrom tunnel, Logf ''failed to resolve target UDP address''],
        st\<lparr>st_buf := read_into (st_buf st) 0 d\<rparr>, Continue)"
  by (simp add: udpRemote_iter_def Let_def slice_read_0)

lemma udpRemote_iter_forward:
  assumes "ev_read e = Inr (d, a)" and "udpAddrToNetip a = (raddr, None)"
    and "SplitAddr (take (length (st_buf st)) d) = Some tgtAddr"
    and "ev_resolve e tgtAddr = Inr tgtUDPAddr"
  shows "udpRemote_iter tunnel st e
     = (case natmap_m (st_nm st) raddr of
          Some pc \<Rightarrow>
            (ReadFrom tunnel
               # WriteTo pc (drop (length tgtAddr) (take (length (st_buf st)) d)) tgtUDPAddr
               # (case ev_write e of Some err \<Rightarrow> [Logf ''UDP remote write error''] | None \<Rightarrow> []),
             st\<lparr>st_buf := read_into (st_buf st) 0 d\<rparr>, Continue)
        | None \<Rightarrow>
            (case ev_listen e of
               Inl err \<Rightarrow>
                 ([ReadFrom tunnel, ListenPacket, Logf ''UDP remote listen error''],
                  st\<lparr>st_buf := read_into (st_buf st) 0 d\<rparr>, Continue)
             | Inr pc \<Rightarrow>
                 (ReadFrom tunnel # ListenPacket
                    # Go raddr pc pc (natmap_timeout (st_nm st)) remoteServer
                    # WriteTo pc (drop (length tgtAddr) (take (length (st_buf st)) d)) tgtUDPAddr
                    # (case ev_write e of Some err \<Rightarrow> [Logf ''UDP remote write error''] | None \<Rightarrow> []),
                  st\<lparr>st_buf := read_into (st_buf st) 0 d,
                     st_nm := natmap_Set (st_nm st) raddr pc\<rparr>, Continue)))"
  using assms slice_read_payload [OF assms(3)]
  by (simp add: udpRemote_iter_def Let_def slice_read_0 natmap_Get_def natmap_Add_def
           split: option.split sum.split)

lemma udpRemote_iter_buf:
  assumes "same_table s t"
  shows "fst (udpRemote_iter tunnel s e) = fst (udpRemote_iter tunnel t e)
         \<and> snd (snd (udpRemote_iter tunnel s e)) = snd (snd (udpRemote_iter tunnel t e))
         \<and> same_table (fst (snd (udpRemote_iter tunnel s e))) (fst (snd (udpRemote_iter tunnel t e)))"
proof -
  from assms have nm: "st_nm s = st_nm t" and ln: "length (st_buf s) = length (st_buf t)"
    by (simp_all add: same_table_def)
  show ?thesis
  proof (cases "ev_read e")
    case (Inl err)
    then show ?thesis using assms by (simp add: udpRemote_iter_read_error)
  next
    case (Inr da)
    obtain d a where da: "da = (d, a)" by (cases da) auto
    with Inr have r: "ev_read e = Inr (d, a)" by simp
    obtain raddr eo where u: "udpAddrToNetip a = (raddr, eo)" by (cases "udpAddrToNetip a") auto
    show ?thesis
    proof (cases eo)
      case (Some err)
      with u have u': "udpAddrToNetip a = (raddr, Some err)" by simp
      show ?thesis using nm ln
        by (simp add: udpRemote_iter_address_error [OF r u'] same_table_def length_read_into)
    next
      case None
      with u have u': "udpAddrToNetip a = (raddr, None)" by simp
      show ?thesis
      proof (cases "SplitAddr (take (length (st_buf t)) d)")
        case N2: None
        then have "SplitAddr (take (length (st_buf s)) d) = None" using ln by simp
        then show ?thesis using nm ln N2
          by (simp add: udpRemote_iter_split_nil [OF r u'] same_table_def length_read_into)
      next
        case (Some tgtAddr)
        then have ss: "SplitAddr (take (length (st_buf s)) d) = Some tgtAddr" using ln by simp
        show ?thesis
        proof (cases "ev_resolve e tgtAddr")
          case I2: (Inl err)
          show ?thesis using nm ln
            by (simp add: udpRemote_iter_resolve_error [OF r u' ss I2]
                          udpRemote_iter_resolve_error [OF r u' Some I2]
                          same_table_def length_read_into)
        next
          case R2: (Inr tgtUDPAddr)
          show ?thesis using nm ln
            by (simp add: udpRemote_iter_forward [OF r u' ss R2]
                          udpRemote_iter_forward [OF r u' Some R2]
                          same_table_def length_read_into
                     split: option.split sum.split)
        qed
      qed
    qed
  qed
qed

lemma udpRemote_loop_buf:
  "same_table s t \<Longrightarrow>
     fst (run_loop (udpRemote_iter tunnel) s es) = fst (run_loop (udpRemote_iter tunnel) t es)
     \<and> snd (snd (run_loop (udpRemote_iter tunnel) s es))
         = snd (snd (run_loop (udpRemote_iter tunnel) t es))
     \<and> same_table (fst (snd (run_loop (udpRemote_iter tunnel) s es)))
                  (fst (snd (run_loop (udpRemote_iter tunnel) t es)))"
proof (induction es arbitrary: s t)
  case Nil
  then show ?case by simp
next
  case (Cons e es)
  obtain fx s1 k1 where bs: "udpRemote_iter tunnel s e = (fx, s1, k1)"
    by (cases "udpRemote_iter tunnel s e") auto
  obtain fx' t1 k1' where bt: "udpRemote_iter tunnel t e = (fx', t1, k1')"
    by (cases "udpRemote_iter tunnel t e") auto
  from udpRemote_iter_buf [OF Cons.prems, of tunnel e] bs bt
  have eq: "fx' = fx" "k1' = k1" "same_table s1 t1" by simp_all
  show ?case
  proof (cases k1)
    case Continue
    from Cons.IH [OF eq(3)] show ?thesis
      using bs bt eq Continue by (auto split: prod.splits)
  next
    case (Return err)
    then show ?thesis using bs bt eq by simp
  next
    case Panic
    then show ?thesis using bs bt eq by simp
  qed
qed

text \<open>
  Claim C7. A datagram received on the tunnel socket from which \<^verbatim>\<open>SplitAddr\<close> splits
  no Wire Address is dropped: the iteration writes nothing, opens no connection, starts no
  session, leaves the table as it was and ends with the next iteration. The datagrams that
  follow are then processed as they would have been without it: the loop produces the same
  effects for them, ends the same way and leaves the same table.
\<close>

theorem udpRemote_drops_malformed:
  assumes "ev_read e = Inr (d, addr)"
    and "SplitAddr (take (length (st_buf st)) d) = None"
  shows "\<exists>fx st1. udpRemote_iter tunnel st e = (fx, st1, Continue)
           \<and> writes fx = [] \<and> created fx = [] \<and> ListenPacket \<notin> set fx
           \<and> st_nm st1 = st_nm st
           \<and> (\<forall>es. fst (run_loop (udpRemote_iter tunnel) st (e # es))
                      = fx # fst (run_loop (udpRemote_iter tunnel) st es)
                  \<and> snd (snd (run_loop (udpRemote_iter tunnel) st (e # es)))
                      = snd (snd (run_loop (udpRemote_iter tunnel) st es))
                  \<and> st_nm (fst (snd (run_loop (udpRemote_iter tunnel) st (e # es))))
                      = st_nm (fst (snd (run_loop (udpRemote_iter tunnel) st es))))"
proof -
  obtain fx st1 k where b: "udpRemote_iter tunnel st e = (fx, st1, k)"
    by (cases "udpRemote_iter tunnel st e") auto
  have p: "k = Continue \<and> writes fx = [] \<and> created fx = [] \<and> ListenPacket \<notin> set fx
           \<and> same_table st1 st"
  proof (cases "udpAddrToNetip addr")
    case (Pair raddr eo)
    show ?thesis
    proof (cases eo)
      case None
      with Pair have "udpAddrToNetip addr = (raddr, None)" by simp
      from udpRemote_iter_split_nil [OF assms(1) this assms(2), of tunnel] b
      show ?thesis by (auto simp: same_table_def length_read_into)
    next
      case (Some err)
      with Pair have "udpAddrToNetip addr = (raddr, Some err)" by simp
      from udpRemote_iter_address_error [OF assms(1) this, of tunnel st] b
      show ?thesis by (auto simp: same_table_def length_read_into)
    qed
  qed
  then have st: "same_table st1 st" by simp
  have "\<forall>es. fst (run_loop (udpRemote_iter tunnel) st (e # es))
                      = fx # fst (run_loop (udpRemote_iter tunnel) st es)
                  \<and> snd (snd (run_loop (udpRemote_iter tunnel) st (e # es)))
                      = snd (snd (run_loop (udpRemote_iter tunnel) st es))
                  \<and> st_nm (fst (snd (run_loop (udpRemote_iter tunnel) st (e # es))))
                      = st_nm (fst (snd (run_loop (udpRemote_iter tunnel) st es)))"
  proof
    fix es
    from udpRemote_loop_buf [OF st, of tunnel es]
    show "fst (run_loop (udpRemote_iter tunnel) st (e # es))
                      = fx # fst (run_loop (udpRemote_iter tunnel) st es)
                  \<and> snd (snd (run_loop (udpRemote_iter tunnel) st (e # es)))
                      = snd (snd (run_loop (udpRemote_iter tunnel) st es))
                  \<and> st_nm (fst (snd (run_loop (udpRemote_iter tunnel) st (e # es))))
                      = st_nm (fst (snd (run_loop (udpRemote_iter tunnel) st es)))"
    proof -
      assume l: "fst (run_loop (udpRemote_iter tunnel) st1 es)
                   = fst (run_loop (udpRemote_iter tunnel) st es)
                 \<and> snd (snd (run_loop (udpRemote_iter tunnel) st1 es))
                   = snd (snd (run_loop (udpRemote_iter tunnel) st es))
                 \<and> same_table (fst (snd (run_loop (udpRemote_iter tunnel) st1 es)))
                              (fst (snd (run_loop (udpRemote_iter tunnel) st es)))"
      obtain tr1 s1 k1 where r1: "run_loop (udpRemote_iter tunnel) st1 es = (tr1, s1, k1)"
        by (cases "run_loop (udpRemote_iter tunnel) st1 es") auto
      have "run_loop (udpRemote_iter tunnel) st (e # es) = (fx # tr1, s1, k1)"
        using b p r1 by simp
      then show ?thesis using l r1 by (simp add: same_table_def)
    qed
  qed
  with b p show ?thesis by (simp add: same_table_def)
qed

theorem udpRemote_drops_malformed_witness:
  "SplitAddr (take (length (st_buf \<lparr>st_nm = newNATmap 60, st_buf = make_bytes udpBufSize\<rparr>))
                   [9, 1, 2]) = None
   \<and> (\<exists>fx st1.
         udpRemote_iter 1 \<lparr>st_nm = newNATmap 60, st_buf = make_bytes udpBufSize\<rparr>
           \<lparr>ev_read = Inr ([9, 1, 2], UDPAddr [10, 0, 0, 2] 5353 []),
            ev_resolve = (\<lambda>w. Inr (UDPAddr (take 4 (drop 1 w)) 80 [])),
            ev_listen = Inr 7, ev_write = None\<rparr> = (fx, st1, Continue)
         \<and> writes fx = [] \<and> created fx = [] \<and> ListenPacket \<notin> set fx
         \<and> st_nm st1 = newNATmap 60
         \<and> fst (run_loop (udpRemote_iter 1) \<lparr>st_nm = newNATmap 60, st_buf = make_bytes udpBufSize\<rparr>
                  [\<lparr>ev_read = Inr ([9, 1, 2], UDPAddr [10, 0, 0, 2] 5353 []),
                    ev_resolve = (\<lambda>w. Inr (UDPAddr (take 4 (drop 1 w)) 80 [])),
                    ev_listen = Inr 7, ev_write = None\<rparr>,
                   \<lparr>ev_read = Inr ([1, 93, 184, 216, 34, 0, 80, 104, 105], UDPAddr [10, 0, 0, 2] 5353 []),
                    ev_resolve = (\<lambda>w. Inr (UDPAddr (take 4 (drop 1 w)) 80 [])),
                    ev_listen = Inr 7, ev_write = None\<rparr>])
             = fx # fst (run_loop (udpRemote_iter 1)
                           \<lparr>st_nm = newNATmap 60, st_buf = make_bytes udpBufSize\<rparr>
                  [\<lparr>ev_read = Inr ([1, 93, 184, 216, 34, 0, 80, 104, 105], UDPAddr [10, 0, 0, 2] 5353 []),
                    ev_resolve = (\<lambda>w. Inr (UDPAddr (take 4 (drop 1 w)) 80 [])),
                    ev_listen = Inr 7, ev_write = None\<rparr>]))"
proof -
  let ?st = "\<lparr>st_nm = newNATmap 60, st_buf = make_bytes udpBufSize\<rparr>"
  let ?e = "\<lparr>ev_read = Inr ([9, 1, 2], UDPAddr [10, 0, 0, 2] 5353 []),
            ev_resolve = (\<lambda>w. Inr (UDPAddr (take 4 (drop 1 w)) 80 [])),
            ev_listen = Inr 7, ev_write = None\<rparr>"
  have h1: "ev_read ?e = Inr ([9, 1, 2], UDPAddr [10, 0, 0, 2] 5353 [])" by simp
  have h2: "SplitAddr (take (length (st_buf ?st)) [9, 1, 2]) = None"
    by (simp add: SplitAddr_def AtypIPv4_def AtypIPv6_def AtypDomainName_def make_bytes_def
                  udpBufSize_def)
  let ?e2 = "\<lparr>ev_read = Inr ([1, 93, 184, 216, 34, 0, 80, 104, 105], UDPAddr [10, 0, 0, 2] 5353 []),
             ev_resolve = (\<lambda>w. Inr (UDPAddr (take 4 (drop 1 w)) 80 [])),
             ev_listen = Inr 7, ev_write = None\<rparr>"
  from udpRemote_drops_malformed [OF h1 h2, of 1]
  obtain fx st1 where i: "udpRemote_iter 1 ?st ?e = (fx, st1, Continue)"
    and w: "writes fx = []" "created fx = []" "ListenPacket \<notin> set fx" "st_nm st1 = st_nm ?st"
    and a: "\<forall>es. fst (run_loop (udpRemote_iter 1) ?st (?e # es))
                      = fx # fst (run_loop (udpRemote_iter 1) ?st es)
                  \<and> snd (snd (run_loop (udpRemote_iter 1) ?st (?e # es)))
                      = snd (snd (run_loop (udpRemote_iter 1) ?st es))
                  \<and> st_nm (fst (snd (run_loop (udpRemote_iter 1) ?st (?e # es))))
                      = st_nm (fst (snd (run_loop (udpRemote_iter 1) ?st es)))"
    by blast
  from a have "fst (run_loop (udpRemote_iter 1) ?st [?e, ?e2])
                 = fx # fst (run_loop (udpRemote_iter 1) ?st [?e2])"
    by blast
  with i w h2 show ?thesis by simp
qed

subsection \<open>Session teardown\<close>









subsection \<open>One session for each peer\<close>

lemma created_append: "created (xs @ ys) = created xs @ created ys"
  by (induction xs rule: created.induct) simp_all

lemma udpLocal_iter_sessions:
  assumes "udpLocal_iter c srvAddr tgt shadow st e = (fx, st', k)"
  shows "(created fx \<noteq> [] \<or> ListenPacket \<in> set fx \<or> st_nm st' \<noteq> st_nm st \<longrightarrow>
            (\<exists>d a raddr. ev_read e = Inr (d, a) \<and> udpAddrToNetip a = (raddr, None)
                \<and> natmap_Get (st_nm st) raddr = None))
         \<and> (\<forall>d a raddr pc. ev_read e = Inr (d, a) \<and> udpAddrToNetip a = (raddr, None)
                \<and> natmap_Get (st_nm st) raddr = Some pc \<longrightarrow>
              st_nm st' = st_nm st \<and> created fx = [] \<and> ListenPacket \<notin> set fx
              \<and> (\<forall>w\<in>set (writes fx). fst w = pc))
         \<and> (\<forall>d a raddr. ev_read e = Inr (d, a) \<and> udpAddrToNetip a = (raddr, None)
                \<and> natmap_Get (st_nm st) raddr = None \<longrightarrow>
              (created fx = [] \<and> st_nm st' = st_nm st \<and> writes fx = [])
              \<or> (\<exists>pc. created fx = [(raddr, pc)] \<and> st_nm st' = natmap_Set (st_nm st) raddr pc
                    \<and> (\<forall>w\<in>set (writes fx). fst w = pc)))"
proof (cases "ev_read e")
  case (Inl err)
  then show ?thesis using assms
    by (auto simp: udpLocal_iter_def split: option.splits)
next
  case (Inr da)
  obtain d a where da: "da = (d, a)" by (cases da) auto
  with Inr have r: "ev_read e = Inr (d, a)" by simp
  obtain rip rport eo where u: "udpAddrToNetip a = ((rip, rport), eo)"
    by (cases "udpAddrToNetip a") auto
  show ?thesis
  proof (cases eo)
    case (Some err)
    then show ?thesis using assms r u
      by (auto simp: udpLocal_iter_def Let_def split: option.splits)
  next
    case None
    show ?thesis
    proof (cases "natmap_m (st_nm st) (rip, rport)")
      case (Some pc)
      then show ?thesis using assms r u None
        by (auto simp: udpLocal_iter_def Let_def natmap_Get_def writes_append
                 split: option.splits)
    next
      case N: None
      show ?thesis
      proof (cases "ev_listen e")
        case (Inl err)
        then show ?thesis using assms r u None N
          by (auto simp: udpLocal_iter_def Let_def natmap_Get_def split: option.splits)
      next
        case (Inr pc0)
        then show ?thesis using assms r u None N
          by (auto simp: udpLocal_iter_def Let_def natmap_Get_def natmap_Add_def writes_append
                         created_append
                   split: option.splits)
      qed
    qed
  qed
qed

lemma udpSocksLocal_iter_sessions:
  assumes "udpSocksLocal_iter c srvAddr shadow st e = (fx, st', k)"
  shows "(created fx \<noteq> [] \<or> ListenPacket \<in> set fx \<or> st_nm st' \<noteq> st_nm st \<longrightarrow>
            (\<exists>d a raddr. ev_read e = Inr (d, a) \<and> udpAddrToNetip a = (raddr, None)
                \<and> natmap_Get (st_nm st) raddr = None))
         \<and> (\<forall>d a raddr pc. ev_read e = Inr (d, a) \<and> udpAddrToNetip a = (raddr, None)
                \<and> natmap_Get (st_nm st) raddr = Some pc \<longrightarrow>
              st_nm st' = st_nm st \<and> created fx = [] \<and> ListenPacket \<notin> set fx
              \<and> (\<forall>w\<in>set (writes fx). fst w = pc))
         \<and> (\<forall>d a raddr. ev_read e = Inr (d, a) \<and> udpAddrToNetip a = (raddr, None)
                \<and> natmap_Get (st_nm st) raddr = None \<longrightarrow>
              (created fx = [] \<and> st_nm st' = st_nm st \<and> writes fx = [])
              \<or> (\<exists>pc. created fx = [(raddr, pc)] \<and> st_nm st' = natmap_Set (st_nm st) raddr pc
                    \<and> (\<forall>w\<in>set (writes fx). fst w = pc)))"
proof (cases "ev_read e")
  case (Inl err)
  then show ?thesis using assms
    by (auto simp: udpSocksLocal_iter_def split: option.splits)
next
  case (Inr da)
  obtain d a where da: "da = (d, a)" by (cases da) auto
  with Inr have r: "ev_read e = Inr (d, a)" by simp
  obtain rip rport eo where u: "udpAddrToNetip a = ((rip, rport), eo)"
    by (cases "udpAddrToNetip a") auto
  show ?thesis
  proof (cases eo)
    case (Some err)
    then show ?thesis using assms r u
      by (auto simp: udpSocksLocal_iter_def Let_def split: option.splits)
  next
    case None
    show ?thesis
    proof (cases "natmap_m (st_nm st) (rip, rport)")
      case (Some pc)
      then show ?thesis using assms r u None
        by (auto simp: udpSocksLocal_iter_def Let_def natmap_Get_def writes_append
                 split: option.splits)
    next
      case N: None
      show ?thesis
      proof (cases "ev_listen e")
        case (Inl err)
        then show ?thesis using assms r u None N
          by (auto simp: udpSocksLocal_iter_def Let_def natmap_Get_def split: option.splits)
      next
        case (Inr pc0)
        then show ?thesis using assms r u None N
          by (auto simp: udpSocksLocal_iter_def Let_def natmap_Get_def natmap_Add_def writes_append
                         created_append
                   split: option.splits)
      qed
    qed
  qed
qed

lemma udpRemote_iter_sessions:
  assumes "udpRemote_iter tunnel st e = (fx, st', k)"
  shows "(created fx \<noteq> [] \<or> ListenPacket \<in> set fx \<or> st_nm st' \<noteq> st_nm st \<longrightarrow>
            (\<exists>d a raddr. ev_read e = Inr (d, a) \<and> udpAddrToNetip a = (raddr, None)
                \<and> natmap_Get (st_nm st) raddr = None))
         \<and> (\<forall>d a raddr pc. ev_read e = Inr (d, a) \<and> udpAddrToNetip a = (raddr, None)
                \<and> natmap_Get (st_nm st) raddr = Some pc \<longrightarrow>
              st_nm st' = st_nm st \<and> created fx = [] \<and> ListenPacket \<notin> set fx
              \<and> (\<forall>w\<in>set (writes fx). fst w = pc))
         \<and> (\<forall>d a raddr. ev_read e = Inr (d, a) \<and> udpAddrToNetip a = (raddr, None)
                \<and> natmap_Get (st_nm st) raddr = None \<longrightarrow>
              (created fx = [] \<and> st_nm st' = st_nm st \<and> writes fx = [])
              \<or> (\<exists>pc. created fx = [(raddr, pc)] \<and> st_nm st' = natmap_Set (st_nm st) raddr pc
                    \<and> (\<forall>w\<in>set (writes fx). fst w = pc)))"
proof (cases "ev_read e")
  case (Inl err)
  from udpRemote_iter_read_error [OF this, of tunnel st] assms Inl
  show ?thesis by auto
next
  case (Inr da)
  obtain d a where da: "da = (d, a)" by (cases da) auto
  with Inr have r: "ev_read e = Inr (d, a)" by simp
  obtain rip rport eo where u: "udpAddrToNetip a = ((rip, rport), eo)"
    by (cases "udpAddrToNetip a") auto
  show ?thesis
  proof (cases eo)
    case (Some err)
    with u have u': "udpAddrToNetip a = ((rip, rport), Some err)" by simp
    from udpRemote_iter_address_error [OF r u', of tunnel st] assms r u'
    show ?thesis by auto
  next
    case None
    with u have u': "udpAddrToNetip a = ((rip, rport), None)" by simp
    show ?thesis
    proof (cases "SplitAddr (take (length (st_buf st)) d)")
      case N2: None
      from udpRemote_iter_split_nil [OF r u' N2, of tunnel] assms r u'
      show ?thesis by auto
    next
      case (Some tgtAddr)
      show ?thesis
      proof (cases "ev_resolve e tgtAddr")
        case I2: (Inl err)
        from udpRemote_iter_resolve_error [OF r u' Some I2, of tunnel] assms r u'
        show ?thesis by auto
      next
        case R2: (Inr tgtUDPAddr)
        note f = udpRemote_iter_forward [OF r u' Some R2, of tunnel]
        show ?thesis
        proof (cases "natmap_m (st_nm st) (rip, rport)")
          case S: (Some pc)
          with f assms r u' show ?thesis
            by (auto simp: natmap_Get_def split: option.splits)
        next
          case N: None
          show ?thesis
          proof (cases "ev_listen e")
            case (Inl err)
            with f N assms r u' show ?thesis by (auto simp: natmap_Get_def)
          next
            case (Inr pc)
            with f N assms r u' show ?thesis
              by (auto simp: natmap_Get_def split: option.splits)
          qed
        qed
      qed
    qed
  qed
qed

lemma ingress_iter_sessions:
  assumes "ingress_iter ing st e = (fx, st', k)"
  shows "(created fx \<noteq> [] \<or> ListenPacket \<in> set fx \<or> st_nm st' \<noteq> st_nm st \<longrightarrow>
            (\<exists>d a raddr. ev_read e = Inr (d, a) \<and> udpAddrToNetip a = (raddr, None)
                \<and> natmap_Get (st_nm st) raddr = None))
         \<and> (\<forall>d a raddr pc. ev_read e = Inr (d, a) \<and> udpAddrToNetip a = (raddr, None)
                \<and> natmap_Get (st_nm st) raddr = Some pc \<longrightarrow>
              st_nm st' = st_nm st \<and> created fx = [] \<and> ListenPacket \<notin> set fx
              \<and> (\<forall>w\<in>set (writes fx). fst w = pc))
         \<and> (\<forall>d a raddr. ev_read e = Inr (d, a) \<and> udpAddrToNetip a = (raddr, None)
                \<and> natmap_Get (st_nm st) raddr = None \<longrightarrow>
              (created fx = [] \<and> st_nm st' = st_nm st \<and> writes fx = [])
              \<or> (\<exists>pc. created fx = [(raddr, pc)] \<and> st_nm st' = natmap_Set (st_nm st) raddr pc
                    \<and> (\<forall>w\<in>set (writes fx). fst w = pc)))"
proof (cases ing)
  case (LocalIngress c srvAddr tgt shadow)
  with assms have "udpLocal_iter c srvAddr tgt shadow st e = (fx, st', k)" by simp
  then show ?thesis by (rule udpLocal_iter_sessions)
next
  case (SocksIngress c srvAddr shadow)
  with assms have "udpSocksLocal_iter c srvAddr shadow st e = (fx, st', k)" by simp
  then show ?thesis by (rule udpSocksLocal_iter_sessions)
next
  case (RemoteIngress tunnel)
  with assms have "udpRemote_iter tunnel st e = (fx, st', k)" by simp
  then show ?thesis by (rule udpRemote_iter_sessions)
qed

lemma created_at_most_one:
  assumes "ingress_iter ing st e = (fx, st', k)"
  shows "length (created fx) \<le> 1"
proof (cases "ev_read e")
  case (Inl err)
  with ingress_iter_sessions [OF assms] show ?thesis by (cases "created fx") auto
next
  case (Inr da)
  obtain d a where r: "ev_read e = Inr (d, a)" using Inr by (cases da) auto
  obtain raddr eo where u: "udpAddrToNetip a = (raddr, eo)" by (cases "udpAddrToNetip a") auto
  show ?thesis
  proof (cases "eo = None \<and> natmap_Get (st_nm st) raddr = None")
    case True
    with ingress_iter_sessions [OF assms] r u
    have "(created fx = [] \<and> st_nm st' = st_nm st \<and> writes fx = [])
          \<or> (\<exists>pc. created fx = [(raddr, pc)] \<and> st_nm st' = natmap_Set (st_nm st) raddr pc
                \<and> (\<forall>w\<in>set (writes fx). fst w = pc))"
      by blast
    then show ?thesis by auto
  next
    case False
    have "created fx = []"
    proof (rule ccontr)
      assume "created fx \<noteq> []"
      with ingress_iter_sessions [OF assms]
      obtain d' a' raddr' where "ev_read e = Inr (d', a')" "udpAddrToNetip a' = (raddr', None)"
        "natmap_Get (st_nm st) raddr' = None" by blast
      with r u False show False by simp
    qed
    then show ?thesis by simp
  qed
qed

lemma run_loop_two:
  "body s e1 = (fx1, s1, Continue) \<Longrightarrow> body s1 e2 = (fx2, s2, k2) \<Longrightarrow>
     run_loop body s [e1, e2] = ([fx1, fx2], s2, k2)"
  by (cases k2) simp_all

lemma run_loop_stop:
  "body s e1 = (fx1, s1, k1) \<Longrightarrow> k1 \<noteq> Continue \<Longrightarrow>
     run_loop body s (e1 # es) = ([fx1], s1, k1)"
  by (cases k1) simp_all

lemma session_upper_bounds:
  "(\<forall>st e fx st' k. ingress_iter ing st e = (fx, st', k) \<longrightarrow>
      (created fx \<noteq> [] \<or> ListenPacket \<in> set fx \<or> st_nm st' \<noteq> st_nm st \<longrightarrow>
            (\<exists>d a raddr. ev_read e = Inr (d, a) \<and> udpAddrToNetip a = (raddr, None)
                \<and> natmap_Get (st_nm st) raddr = None))
         \<and> (\<forall>d a raddr pc. ev_read e = Inr (d, a) \<and> udpAddrToNetip a = (raddr, None)
                \<and> natmap_Get (st_nm st) raddr = Some pc \<longrightarrow>
              st_nm st' = st_nm st \<and> created fx = [] \<and> ListenPacket \<notin> set fx
              \<and> (\<forall>w\<in>set (writes fx). fst w = pc))
         \<and> (\<forall>d a raddr. ev_read e = Inr (d, a) \<and> udpAddrToNetip a = (raddr, None)
                \<and> natmap_Get (st_nm st) raddr = None \<longrightarrow>
              (created fx = [] \<and> st_nm st' = st_nm st \<and> writes fx = [])
              \<or> (\<exists>pc. created fx = [(raddr, pc)] \<and> st_nm st' = natmap_Set (st_nm st) raddr pc
                    \<and> (\<forall>w\<in>set (writes fx). fst w = pc))))
   \<and> (\<forall>st e1 e2 d1 a1 d2 a2 raddr tr st2 k.
        ev_read e1 = Inr (d1, a1) \<and> udpAddrToNetip a1 = (raddr, None)
      \<and> ev_read e2 = Inr (d2, a2) \<and> udpAddrToNetip a2 = (raddr, None)
      \<and> run_loop (ingress_iter ing) st [e1, e2] = (tr, st2, k) \<longrightarrow>
        length (created (concat tr)) \<le> 1
      \<and> (\<forall>pc. length tr = 2
              \<and> (natmap_Get (st_nm st) raddr = Some pc \<or> created (tr ! 0) = [(raddr, pc)]) \<longrightarrow>
            created (tr ! 1) = [] \<and> ListenPacket \<notin> set (tr ! 1)
          \<and> (\<forall>w\<in>set (writes (tr ! 1)). fst w = pc)
          \<and> natmap_Get (st_nm st2) raddr = Some pc))"
proof (rule conjI; intro allI impI)
  fix st :: loop_state and e :: event and fx st' k
  assume "ingress_iter ing st e = (fx, st', k)"
  then show "(created fx \<noteq> [] \<or> ListenPacket \<in> set fx \<or> st_nm st' \<noteq> st_nm st \<longrightarrow>
            (\<exists>d a raddr. ev_read e = Inr (d, a) \<and> udpAddrToNetip a = (raddr, None)
                \<and> natmap_Get (st_nm st) raddr = None))
         \<and> (\<forall>d a raddr pc. ev_read e = Inr (d, a) \<and> udpAddrToNetip a = (raddr, None)
                \<and> natmap_Get (st_nm st) raddr = Some pc \<longrightarrow>
              st_nm st' = st_nm st \<and> created fx = [] \<and> ListenPacket \<notin> set fx
              \<and> (\<forall>w\<in>set (writes fx). fst w = pc))
         \<and> (\<forall>d a raddr. ev_read e = Inr (d, a) \<and> udpAddrToNetip a = (raddr, None)
                \<and> natmap_Get (st_nm st) raddr = None \<longrightarrow>
              (created fx = [] \<and> st_nm st' = st_nm st \<and> writes fx = [])
              \<or> (\<exists>pc. created fx = [(raddr, pc)] \<and> st_nm st' = natmap_Set (st_nm st) raddr pc
                    \<and> (\<forall>w\<in>set (writes fx). fst w = pc)))" by (rule ingress_iter_sessions)
next
  fix st :: loop_state and e1 e2 :: event and d1 a1 d2 a2 raddr tr st2 k
  assume h: "ev_read e1 = Inr (d1, a1) \<and> udpAddrToNetip a1 = (raddr, None)
      \<and> ev_read e2 = Inr (d2, a2) \<and> udpAddrToNetip a2 = (raddr, None)
      \<and> run_loop (ingress_iter ing) st [e1, e2] = (tr, st2, k)"
  obtain fx1 st1 k1 where b1: "ingress_iter ing st e1 = (fx1, st1, k1)"
    by (cases "ingress_iter ing st e1") auto
  obtain fx2 st2' k2 where b2: "ingress_iter ing st1 e2 = (fx2, st2', k2)"
    by (cases "ingress_iter ing st1 e2") auto
  note s1 = ingress_iter_sessions [OF b1] and s2 = ingress_iter_sessions [OF b2]
  have reuse: "\<And>pc. natmap_Get (st_nm st1) raddr = Some pc \<Longrightarrow>
                 st_nm st2' = st_nm st1 \<and> created fx2 = [] \<and> ListenPacket \<notin> set fx2
                 \<and> (\<forall>w\<in>set (writes fx2). fst w = pc)"
    using s2 h by blast
  have after1: "\<And>pc. natmap_Get (st_nm st) raddr = Some pc \<or> created fx1 = [(raddr, pc)]
                  \<Longrightarrow> natmap_Get (st_nm st1) raddr = Some pc"
  proof -
    fix pc
    assume a: "natmap_Get (st_nm st) raddr = Some pc \<or> created fx1 = [(raddr, pc)]"
    show "natmap_Get (st_nm st1) raddr = Some pc"
    proof (cases "natmap_Get (st_nm st) raddr")
      case (Some pc')
      with s1 h have "st_nm st1 = st_nm st" "created fx1 = []" by blast+
      with a Some show ?thesis by simp
    next
      case None
      with s1 h
      have "(created fx1 = [] \<and> st_nm st1 = st_nm st \<and> writes fx1 = [])
            \<or> (\<exists>pc'. created fx1 = [(raddr, pc')] \<and> st_nm st1 = natmap_Set (st_nm st) raddr pc'
                  \<and> (\<forall>w\<in>set (writes fx1). fst w = pc'))"
        by blast
      with a None show ?thesis by (auto simp: natmap_Get_def natmap_Set_def)
    qed
  qed
  have p1: "length (created (concat tr)) \<le> 1"
  proof (cases k1)
    case Continue
    with run_loop_two [of "ingress_iter ing" st e1 fx1 st1 e2 fx2 st2' k2] h b1 b2
    have tr: "tr = [fx1, fx2]" by simp
    show ?thesis
    proof (cases "created fx1")
      case Nil
      with tr created_at_most_one [OF b2] show ?thesis by (simp add: created_append)
    next
      case (Cons p ps)
      then have ne: "created fx1 \<noteq> []" by simp
      with s1 obtain d a r where "ev_read e1 = Inr (d, a)" "udpAddrToNetip a = (r, None)"
        "natmap_Get (st_nm st) r = None" by blast
      with h have n: "natmap_Get (st_nm st) raddr = None" by simp
      with s1 h ne obtain pc where "created fx1 = [(raddr, pc)]" by blast
      with after1 [of pc] reuse [of pc] tr show ?thesis by (simp add: created_append)
    qed
  next
    case (Return err)
    with run_loop_stop [where body = "ingress_iter ing" and es = "[e2]", OF b1] h have "tr = [fx1]" by simp
    with created_at_most_one [OF b1] show ?thesis by simp
  next
    case Panic
    with run_loop_stop [where body = "ingress_iter ing" and es = "[e2]", OF b1] h have "tr = [fx1]" by simp
    with created_at_most_one [OF b1] show ?thesis by simp
  qed
  have p2: "\<forall>pc. length tr = 2
              \<and> (natmap_Get (st_nm st) raddr = Some pc \<or> created (tr ! 0) = [(raddr, pc)]) \<longrightarrow>
            created (tr ! 1) = [] \<and> ListenPacket \<notin> set (tr ! 1)
          \<and> (\<forall>w\<in>set (writes (tr ! 1)). fst w = pc)
          \<and> natmap_Get (st_nm st2) raddr = Some pc"
  proof (intro allI impI)
  fix pc
  assume c: "length tr = 2
              \<and> (natmap_Get (st_nm st) raddr = Some pc \<or> created (tr ! 0) = [(raddr, pc)])"
  have k1: "k1 = Continue"
  proof (rule ccontr)
    assume "k1 \<noteq> Continue"
    with run_loop_stop [where body = "ingress_iter ing" and es = "[e2]", OF b1] h have "tr = [fx1]" by simp
    with c show False by simp
  qed
  with run_loop_two [of "ingress_iter ing" st e1 fx1 st1 e2 fx2 st2' k2] h b1 b2
  have tr: "tr = [fx1, fx2]" and st2: "st2 = st2'" by simp_all
  from c tr have "natmap_Get (st_nm st) raddr = Some pc \<or> created fx1 = [(raddr, pc)]" by simp
  then have g: "natmap_Get (st_nm st1) raddr = Some pc" by (rule after1)
  from reuse [OF g] g tr st2
  show "created (tr ! 1) = [] \<and> ListenPacket \<notin> set (tr ! 1)
          \<and> (\<forall>w\<in>set (writes (tr ! 1)). fst w = pc)
          \<and> natmap_Get (st_nm st2) raddr = Some pc"
    by simp
  qed
  from p1 p2
  show "length (created (concat tr)) \<le> 1
      \<and> (\<forall>pc. length tr = 2
              \<and> (natmap_Get (st_nm st) raddr = Some pc \<or> created (tr ! 0) = [(raddr, pc)]) \<longrightarrow>
            created (tr ! 1) = [] \<and> ListenPacket \<notin> set (tr ! 1)
          \<and> (\<forall>w\<in>set (writes (tr ! 1)). fst w = pc)
          \<and> natmap_Get (st_nm st2) raddr = Some pc)"
    by (rule conjI)
qed

lemma udpLocal_iter_forwards:
  assumes "udpLocal_iter c srvAddr tgt shadow st e = (fx, st', k)"
    and "length tgt \<le> length (st_buf st)"
    and "ev_read e = Inr (d, a)"
    and "udpAddrToNetip a = ((rip, rport), None)"
    and "natmap_Get (st_nm st) (rip, rport) = Some pc \<or> ev_listen e = Inr pc0"
  shows "k = Continue \<and> length (writes fx) = 1
         \<and> (natmap_Get (st_nm st) (rip, rport) = None \<longrightarrow> created fx \<noteq> [] \<and> ListenPacket \<in> set fx)
         \<and> length (st_buf st') = length (st_buf st)"
proof -
  have s0: "slice (st_buf st) (length tgt) (length (st_buf st)) \<noteq> None"
    using assms(2) by (simp add: slice_def)
  have s1: "slice (read_into (st_buf st) (length tgt) d) 0
              (length tgt + read_n (st_buf st) (length tgt) d) \<noteq> None"
    using assms(2) by (simp add: slice_def length_read_into read_n_def)
  show ?thesis
  proof (cases "natmap_m (st_nm st) (rip, rport)")
    case (Some pc')
    then show ?thesis using assms s0 s1
      by (auto simp: udpLocal_iter_def Let_def natmap_Get_def writes_append length_read_into
               split: option.splits)
  next
    case None
    with assms(5) have "ev_listen e = Inr pc0" by (simp add: natmap_Get_def)
    then show ?thesis using assms(1-4) s0 s1 None
      by (auto simp: udpLocal_iter_def Let_def natmap_Get_def natmap_Add_def writes_append
                     created_append length_read_into
               split: option.splits)
  qed
qed

lemma udpSocksLocal_iter_forwards:
  assumes "udpSocksLocal_iter c srvAddr shadow st e = (fx, st', k)"
    and "3 \<le> length (st_buf st)" and "3 \<le> length d"
    and "ev_read e = Inr (d, a)"
    and "udpAddrToNetip a = ((rip, rport), None)"
    and "natmap_Get (st_nm st) (rip, rport) = Some pc \<or> ev_listen e = Inr pc0"
  shows "k = Continue \<and> length (writes fx) = 1
         \<and> (natmap_Get (st_nm st) (rip, rport) = None \<longrightarrow> created fx \<noteq> [] \<and> ListenPacket \<in> set fx)
         \<and> length (st_buf st') = length (st_buf st)"
proof -
  let ?b = "read_into (st_buf st) 0 d"
  have l: "length ?b = length (st_buf st)" by (simp add: length_read_into)
  have s0: "slice ?b 3 (length ?b) \<noteq> None" using assms(2) l by (simp add: slice_def)
  have s1: "slice ?b 3 (read_n (st_buf st) 0 d) \<noteq> None"
    using assms(2,3) l by (simp add: slice_def read_n_def)
  show ?thesis
  proof (cases "natmap_m (st_nm st) (rip, rport)")
    case (Some pc')
    then show ?thesis using assms s0 s1 l
      by (auto simp: udpSocksLocal_iter_def Let_def natmap_Get_def writes_append
               split: option.splits)
  next
    case None
    with assms(6) have "ev_listen e = Inr pc0" by (simp add: natmap_Get_def)
    then show ?thesis using assms(1-5) s0 s1 None l
      by (auto simp: udpSocksLocal_iter_def Let_def natmap_Get_def natmap_Add_def writes_append
                     created_append
               split: option.splits)
  qed
qed

lemma udpRemote_iter_forwards:
  assumes "udpRemote_iter tunnel st e = (fx, st', k)"
    and "SplitAddr (take (length (st_buf st)) d) = Some tgtAddr"
    and "ev_resolve e tgtAddr = Inr t"
    and "ev_read e = Inr (d, a)"
    and "udpAddrToNetip a = ((rip, rport), None)"
    and "natmap_Get (st_nm st) (rip, rport) = Some pc \<or> ev_listen e = Inr pc0"
  shows "k = Continue \<and> length (writes fx) = 1
         \<and> (natmap_Get (st_nm st) (rip, rport) = None \<longrightarrow> created fx \<noteq> [] \<and> ListenPacket \<in> set fx)
         \<and> length (st_buf st') = length (st_buf st)"
proof -
  note f = udpRemote_iter_forward [OF assms(4) assms(5) assms(2) assms(3), of tunnel]
  show ?thesis
  proof (cases "natmap_m (st_nm st) (rip, rport)")
    case (Some pc')
    with f assms(1) show ?thesis
      by (auto simp: natmap_Get_def length_read_into split: option.splits)
  next
    case None
    with assms(6) have "ev_listen e = Inr pc0" by (simp add: natmap_Get_def)
    with f assms(1) None show ?thesis
      by (auto simp: natmap_Get_def length_read_into split: option.splits)
  qed
qed

lemma ingress_iter_forwards:
  assumes "ingress_iter ing st e = (fx, st', k)"
    and "passes ing (length (st_buf st)) e"
    and "ev_read e = Inr (d, a)"
    and "udpAddrToNetip a = (raddr, None)"
    and "natmap_Get (st_nm st) raddr = Some pc \<or> ev_listen e = Inr pc0"
  shows "k = Continue \<and> length (writes fx) = 1
         \<and> (natmap_Get (st_nm st) raddr = None \<longrightarrow> created fx \<noteq> [] \<and> ListenPacket \<in> set fx)
         \<and> length (st_buf st') = length (st_buf st)"
proof -
  obtain rip rport where r: "raddr = (rip, rport)" by (cases raddr) auto
  show ?thesis
  proof (cases ing)
    case (LocalIngress c srvAddr tgt shadow)
    with assms r show ?thesis
      using udpLocal_iter_forwards [of c srvAddr tgt shadow st e fx st' k d a rip rport pc pc0]
      by simp
  next
    case (SocksIngress c srvAddr shadow)
    with assms r show ?thesis
      using udpSocksLocal_iter_forwards [of c srvAddr shadow st e fx st' k d a rip rport pc pc0]
      by simp
  next
    case (RemoteIngress tunnel)
    with assms(2,3) obtain tgtAddr t where
      "SplitAddr (take (length (st_buf st)) d) = Some tgtAddr" "ev_resolve e tgtAddr = Inr t"
      by (auto split: option.splits sum.splits)
    with RemoteIngress assms r show ?thesis
      using udpRemote_iter_forwards [of tunnel st e fx st' k d tgtAddr t a rip rport pc pc0]
      by simp
  qed
qed

lemma ingress_iter_reuse:
  assumes "ingress_iter ing st e = (fx, st', k)"
    and "passes ing (length (st_buf st)) e"
    and "ev_read e = Inr (d, a)"
    and "udpAddrToNetip a = (raddr, None)"
    and "natmap_Get (st_nm st) raddr = Some pc"
  shows "k = Continue \<and> (\<exists>bs to. writes fx = [(pc, bs, to)]) \<and> created fx = []
         \<and> ListenPacket \<notin> set fx \<and> st_nm st' = st_nm st
         \<and> length (st_buf st') = length (st_buf st)"
proof -
  from ingress_iter_forwards [OF assms(1-4), of pc] assms(5)
  have f: "k = Continue" "length (writes fx) = 1" "length (st_buf st') = length (st_buf st)"
    by simp_all
  from ingress_iter_sessions [OF assms(1)] assms(3-5)
  have u: "st_nm st' = st_nm st" "created fx = []" "ListenPacket \<notin> set fx"
    "\<forall>w\<in>set (writes fx). fst w = pc"
    by blast+
  from f(2) obtain w where w: "writes fx = [w]" by (cases "writes fx") auto
  with u(4) have "fst w = pc" by simp
  then obtain bs to where "w = (pc, bs, to)" by (cases w) auto
  with w f u show ?thesis by simp
qed

lemma ingress_iter_create:
  assumes "ingress_iter ing st e = (fx, st', k)"
    and "passes ing (length (st_buf st)) e"
    and "ev_read e = Inr (d, a)"
    and "udpAddrToNetip a = (raddr, None)"
    and "natmap_Get (st_nm st) raddr = None"
    and "ev_listen e = Inr pc0"
  shows "k = Continue \<and> ListenPacket \<in> set fx
         \<and> (\<exists>pc bs to. created fx = [(raddr, pc)] \<and> writes fx = [(pc, bs, to)]
               \<and> natmap_Get (st_nm st') raddr = Some pc)
         \<and> length (st_buf st') = length (st_buf st)"
proof -
  from ingress_iter_forwards [OF assms(1-4), of 0 pc0] assms(5,6)
  have f: "k = Continue" "length (writes fx) = 1" "created fx \<noteq> []" "ListenPacket \<in> set fx"
    "length (st_buf st') = length (st_buf st)"
    by simp_all
  from ingress_iter_sessions [OF assms(1)] assms(3-5)
  have "(created fx = [] \<and> st_nm st' = st_nm st \<and> writes fx = [])
        \<or> (\<exists>pc. created fx = [(raddr, pc)] \<and> st_nm st' = natmap_Set (st_nm st) raddr pc
              \<and> (\<forall>w\<in>set (writes fx). fst w = pc))"
    by blast
  with f(3) obtain pc where c: "created fx = [(raddr, pc)]"
    and t: "st_nm st' = natmap_Set (st_nm st) raddr pc"
    and ws: "\<forall>w\<in>set (writes fx). fst w = pc"
    by blast
  from f(2) obtain w where w: "writes fx = [w]" by (cases "writes fx") auto
  with ws have "fst w = pc" by simp
  then obtain bs to where "w = (pc, bs, to)" by (cases w) auto
  moreover have "natmap_Get (st_nm st') raddr = Some pc"
    using t by (simp add: natmap_Get_def natmap_Set_def)
  ultimately show ?thesis using w c f by simp
qed

lemma two_datagrams_one_session:
  assumes "ev_read e1 = Inr (d1, a1)" and "udpAddrToNetip a1 = (raddr, None)"
    and "ev_read e2 = Inr (d2, a2)" and "udpAddrToNetip a2 = (raddr, None)"
    and "natmap_Get (st_nm st) raddr = None" and "ev_listen e1 = Inr pc0"
    and "passes ing (length (st_buf st)) e1" and "passes ing (length (st_buf st)) e2"
  shows "\<exists>tr st2 pc b1 t1 b2 t2.
            run_loop (ingress_iter ing) st [e1, e2] = (tr, st2, Continue)
          \<and> length tr = 2
          \<and> created (concat tr) = [(raddr, pc)]
          \<and> ListenPacket \<in> set (tr ! 0) \<and> ListenPacket \<notin> set (tr ! 1)
          \<and> writes (tr ! 0) = [(pc, b1, t1)]
          \<and> writes (tr ! 1) = [(pc, b2, t2)]
          \<and> natmap_Get (st_nm st2) raddr = Some pc"
proof -
  obtain fx1 st1 k1 where i1: "ingress_iter ing st e1 = (fx1, st1, k1)"
    by (cases "ingress_iter ing st e1") auto
  from ingress_iter_create [OF i1 assms(7) assms(1) assms(2) assms(5) assms(6)]
  obtain pc b1 t1 where k1: "k1 = Continue" and l1: "ListenPacket \<in> set fx1"
    and c1: "created fx1 = [(raddr, pc)]" and w1: "writes fx1 = [(pc, b1, t1)]"
    and g1: "natmap_Get (st_nm st1) raddr = Some pc"
    and b1: "length (st_buf st1) = length (st_buf st)"
    by blast
  obtain fx2 st2 k2 where i2: "ingress_iter ing st1 e2 = (fx2, st2, k2)"
    by (cases "ingress_iter ing st1 e2") auto
  from assms(8) b1 have p2: "passes ing (length (st_buf st1)) e2" by simp
  from ingress_iter_reuse [OF i2 p2 assms(3) assms(4) g1]
  obtain b2 t2 where k2: "k2 = Continue" and w2: "writes fx2 = [(pc, b2, t2)]"
    and c2: "created fx2 = []" and l2: "ListenPacket \<notin> set fx2"
    and n2: "st_nm st2 = st_nm st1"
    by blast
  from run_loop_two [of "ingress_iter ing" st e1 fx1 st1 e2 fx2 st2 k2] i1 i2 k1 k2
  have r: "run_loop (ingress_iter ing) st [e1, e2] = ([fx1, fx2], st2, Continue)" by simp
  have "created (concat [fx1, fx2]) = [(raddr, pc)]"
    using c1 c2 by (simp add: created_append)
  with r l1 l2 w1 w2 g1 n2 show ?thesis by auto
qed

text \<open>
  Claim C9. In each of the three ingress loops, one iteration calls \<^verbatim>\<open>net.ListenPacket\<close>,
  starts a session or changes the table only when the read succeeded, the sender's address
  converted and \<^verbatim>\<open>Get\<close> found no connection for the peer; when \<^verbatim>\<open>Get\<close> finds a
  connection, the table is left as it is, nothing is created and every write goes to that
  connection; and when it finds none, either nothing is created, or exactly one session is,
  for that peer, the table then maps the peer to its connection and every write goes to
  it. Hence two datagrams from one peer, handled one after the other with no teardown in
  between, create at most one session. Moreover the connection is really used: a datagram
  that passes the ingress's own checks is written, once, to the connection \<^verbatim>\<open>Get\<close>
  found; or, when there is none and \<^verbatim>\<open>net.ListenPacket\<close> succeeds, one connection is
  opened, one session started for the peer, the table maps the peer to it and the datagram
  is written once to it. So two such datagrams from a new peer open exactly one connection,
  start exactly one session, and are both written to that one connection, which the table
  holds for the peer afterwards. The table is a map, so it holds at most one entry for a
  peer at any time.
\<close>

theorem one_session_per_peer:
  "(\<forall>st e fx st' k. ingress_iter ing st e = (fx, st', k) \<longrightarrow>
      (created fx \<noteq> [] \<or> ListenPacket \<in> set fx \<or> st_nm st' \<noteq> st_nm st \<longrightarrow>
            (\<exists>d a raddr. ev_read e = Inr (d, a) \<and> udpAddrToNetip a = (raddr, None)
                \<and> natmap_Get (st_nm st) raddr = None))
         \<and> (\<forall>d a raddr pc. ev_read e = Inr (d, a) \<and> udpAddrToNetip a = (raddr, None)
                \<and> natmap_Get (st_nm st) raddr = Some pc \<longrightarrow>
              st_nm st' = st_nm st \<and> created fx = [] \<and> ListenPacket \<notin> set fx
              \<and> (\<forall>w\<in>set (writes fx). fst w = pc))
         \<and> (\<forall>d a raddr. ev_read e = Inr (d, a) \<and> udpAddrToNetip a = (raddr, None)
                \<and> natmap_Get (st_nm st) raddr = None \<longrightarrow>
              (created fx = [] \<and> st_nm st' = st_nm st \<and> writes fx = [])
              \<or> (\<exists>pc. created fx = [(raddr, pc)] \<and> st_nm st' = natmap_Set (st_nm st) raddr pc
                    \<and> (\<forall>w\<in>set (writes fx). fst w = pc))))
   \<and> (\<forall>st e1 e2 d1 a1 d2 a2 raddr tr st2 k.
        ev_read e1 = Inr (d1, a1) \<and> udpAddrToNetip a1 = (raddr, None)
      \<and> ev_read e2 = Inr (d2, a2) \<and> udpAddrToNetip a2 = (raddr, None)
      \<and> run_loop (ingress_iter ing) st [e1, e2] = (tr, st2, k) \<longrightarrow>
        length (created (concat tr)) \<le> 1
      \<and> (\<forall>pc. length tr = 2
              \<and> (natmap_Get (st_nm st) raddr = Some pc \<or> created (tr ! 0) = [(raddr, pc)]) \<longrightarrow>
            created (tr ! 1) = [] \<and> ListenPacket \<notin> set (tr ! 1)
          \<and> (\<forall>w\<in>set (writes (tr ! 1)). fst w = pc)
          \<and> natmap_Get (st_nm st2) raddr = Some pc))
   \<and> (\<forall>st e fx st' k d a raddr.
        ingress_iter ing st e = (fx, st', k) \<and> ev_read e = Inr (d, a)
      \<and> udpAddrToNetip a = (raddr, None) \<and> passes ing (length (st_buf st)) e \<longrightarrow>
        (\<forall>pc. natmap_Get (st_nm st) raddr = Some pc \<longrightarrow>
           k = Continue \<and> (\<exists>bs to. writes fx = [(pc, bs, to)]))
      \<and> (\<forall>pc0. natmap_Get (st_nm st) raddr = None \<and> ev_listen e = Inr pc0 \<longrightarrow>
           k = Continue \<and> ListenPacket \<in> set fx
         \<and> (\<exists>pc bs to. created fx = [(raddr, pc)] \<and> writes fx = [(pc, bs, to)]
               \<and> natmap_Get (st_nm st') raddr = Some pc)))
   \<and> (\<forall>st e1 e2 d1 a1 d2 a2 raddr pc0.
        ev_read e1 = Inr (d1, a1) \<and> udpAddrToNetip a1 = (raddr, None)
      \<and> ev_read e2 = Inr (d2, a2) \<and> udpAddrToNetip a2 = (raddr, None)
      \<and> natmap_Get (st_nm st) raddr = None \<and> ev_listen e1 = Inr pc0
      \<and> passes ing (length (st_buf st)) e1 \<and> passes ing (length (st_buf st)) e2 \<longrightarrow>
        (\<exists>tr st2 pc b1 t1 b2 t2.
            run_loop (ingress_iter ing) st [e1, e2] = (tr, st2, Continue)
          \<and> length tr = 2
          \<and> created (concat tr) = [(raddr, pc)]
          \<and> ListenPacket \<in> set (tr ! 0) \<and> ListenPacket \<notin> set (tr ! 1)
          \<and> writes (tr ! 0) = [(pc, b1, t1)]
          \<and> writes (tr ! 1) = [(pc, b2, t2)]
          \<and> natmap_Get (st_nm st2) raddr = Some pc))"
proof (intro conjI)
  show "(\<forall>st e fx st' k. ingress_iter ing st e = (fx, st', k) \<longrightarrow>
      (created fx \<noteq> [] \<or> ListenPacket \<in> set fx \<or> st_nm st' \<noteq> st_nm st \<longrightarrow>
            (\<exists>d a raddr. ev_read e = Inr (d, a) \<and> udpAddrToNetip a = (raddr, None)
                \<and> natmap_Get (st_nm st) raddr = None))
         \<and> (\<forall>d a raddr pc. ev_read e = Inr (d, a) \<and> udpAddrToNetip a = (raddr, None)
                \<and> natmap_Get (st_nm st) raddr = Some pc \<longrightarrow>
              st_nm st' = st_nm st \<and> created fx = [] \<and> ListenPacket \<notin> set fx
              \<and> (\<forall>w\<in>set (writes fx). fst w = pc))
         \<and> (\<forall>d a raddr. ev_read e = Inr (d, a) \<and> udpAddrToNetip a = (raddr, None)
                \<and> natmap_Get (st_nm st) raddr = None \<longrightarrow>
              (created fx = [] \<and> st_nm st' = st_nm st \<and> writes fx = [])
              \<or> (\<exists>pc. created fx = [(raddr, pc)] \<and> st_nm st' = natmap_Set (st_nm st) raddr pc
                    \<and> (\<forall>w\<in>set (writes fx). fst w = pc))))"
    using session_upper_bounds [of ing] by (rule conjunct1)
  show "(\<forall>st e1 e2 d1 a1 d2 a2 raddr tr st2 k.
        ev_read e1 = Inr (d1, a1) \<and> udpAddrToNetip a1 = (raddr, None)
      \<and> ev_read e2 = Inr (d2, a2) \<and> udpAddrToNetip a2 = (raddr, None)
      \<and> run_loop (ingress_iter ing) st [e1, e2] = (tr, st2, k) \<longrightarrow>
        length (created (concat tr)) \<le> 1
      \<and> (\<forall>pc. length tr = 2
              \<and> (natmap_Get (st_nm st) raddr = Some pc \<or> created (tr ! 0) = [(raddr, pc)]) \<longrightarrow>
            created (tr ! 1) = [] \<and> ListenPacket \<notin> set (tr ! 1)
          \<and> (\<forall>w\<in>set (writes (tr ! 1)). fst w = pc)
          \<and> natmap_Get (st_nm st2) raddr = Some pc))"
    using session_upper_bounds [of ing] by (rule conjunct2)
  show "(\<forall>st e fx st' k d a raddr.
        ingress_iter ing st e = (fx, st', k) \<and> ev_read e = Inr (d, a)
      \<and> udpAddrToNetip a = (raddr, None) \<and> passes ing (length (st_buf st)) e \<longrightarrow>
        (\<forall>pc. natmap_Get (st_nm st) raddr = Some pc \<longrightarrow>
           k = Continue \<and> (\<exists>bs to. writes fx = [(pc, bs, to)]))
      \<and> (\<forall>pc0. natmap_Get (st_nm st) raddr = None \<and> ev_listen e = Inr pc0 \<longrightarrow>
           k = Continue \<and> ListenPacket \<in> set fx
         \<and> (\<exists>pc bs to. created fx = [(raddr, pc)] \<and> writes fx = [(pc, bs, to)]
               \<and> natmap_Get (st_nm st') raddr = Some pc)))"
  proof (intro allI impI conjI)
    fix st :: loop_state and e :: event and fx st' k d a raddr pc
    assume h: "ingress_iter ing st e = (fx, st', k) \<and> ev_read e = Inr (d, a)
      \<and> udpAddrToNetip a = (raddr, None) \<and> passes ing (length (st_buf st)) e"
      and g: "natmap_Get (st_nm st) raddr = Some pc"
    from h have h1: "ingress_iter ing st e = (fx, st', k)" and h2: "ev_read e = Inr (d, a)"
      and h3: "udpAddrToNetip a = (raddr, None)" and h4: "passes ing (length (st_buf st)) e"
      by simp_all
    from ingress_iter_reuse [OF h1 h4 h2 h3 g]
    show "k = Continue" and "\<exists>bs to. writes fx = [(pc, bs, to)]" by simp_all
  next
    fix st :: loop_state and e :: event and fx st' k d a raddr pc0
    assume h: "ingress_iter ing st e = (fx, st', k) \<and> ev_read e = Inr (d, a)
      \<and> udpAddrToNetip a = (raddr, None) \<and> passes ing (length (st_buf st)) e"
      and g: "natmap_Get (st_nm st) raddr = None \<and> ev_listen e = Inr pc0"
    from h have h1: "ingress_iter ing st e = (fx, st', k)" and h2: "ev_read e = Inr (d, a)"
      and h3: "udpAddrToNetip a = (raddr, None)" and h4: "passes ing (length (st_buf st)) e"
      by simp_all
    from g have g1: "natmap_Get (st_nm st) raddr = None" and g2: "ev_listen e = Inr pc0"
      by simp_all
    from ingress_iter_create [OF h1 h4 h2 h3 g1 g2]
    show "k = Continue" and "ListenPacket \<in> set fx"
      and "\<exists>pc bs to. created fx = [(raddr, pc)] \<and> writes fx = [(pc, bs, to)]
               \<and> natmap_Get (st_nm st') raddr = Some pc"
      by simp_all
  qed
  show "(\<forall>st e1 e2 d1 a1 d2 a2 raddr pc0.
        ev_read e1 = Inr (d1, a1) \<and> udpAddrToNetip a1 = (raddr, None)
      \<and> ev_read e2 = Inr (d2, a2) \<and> udpAddrToNetip a2 = (raddr, None)
      \<and> natmap_Get (st_nm st) raddr = None \<and> ev_listen e1 = Inr pc0
      \<and> passes ing (length (st_buf st)) e1 \<and> passes ing (length (st_buf st)) e2 \<longrightarrow>
        (\<exists>tr st2 pc b1 t1 b2 t2.
            run_loop (ingress_iter ing) st [e1, e2] = (tr, st2, Continue)
          \<and> length tr = 2
          \<and> created (concat tr) = [(raddr, pc)]
          \<and> ListenPacket \<in> set (tr ! 0) \<and> ListenPacket \<notin> set (tr ! 1)
          \<and> writes (tr ! 0) = [(pc, b1, t1)]
          \<and> writes (tr ! 1) = [(pc, b2, t2)]
          \<and> natmap_Get (st_nm st2) raddr = Some pc))"
  proof (intro allI impI)
    fix st :: loop_state and e1 e2 :: event and d1 a1 d2 a2 raddr pc0
    assume h: "ev_read e1 = Inr (d1, a1) \<and> udpAddrToNetip a1 = (raddr, None)
      \<and> ev_read e2 = Inr (d2, a2) \<and> udpAddrToNetip a2 = (raddr, None)
      \<and> natmap_Get (st_nm st) raddr = None \<and> ev_listen e1 = Inr pc0
      \<and> passes ing (length (st_buf st)) e1 \<and> passes ing (length (st_buf st)) e2"
    then show "\<exists>tr st2 pc b1 t1 b2 t2.
            run_loop (ingress_iter ing) st [e1, e2] = (tr, st2, Continue)
          \<and> length tr = 2
          \<and> created (concat tr) = [(raddr, pc)]
          \<and> ListenPacket \<in> set (tr ! 0) \<and> ListenPacket \<notin> set (tr ! 1)
          \<and> writes (tr ! 0) = [(pc, b1, t1)]
          \<and> writes (tr ! 1) = [(pc, b2, t2)]
          \<and> natmap_Get (st_nm st2) raddr = Some pc"
      using two_datagrams_one_session [of e1 d1 a1 raddr e2 d2 a2 st pc0 ing] by simp
  qed
qed

theorem one_session_per_peer_witness:
  "\<exists>tr st2 b1 t1 b2 t2.
     run_loop (ingress_iter (SocksIngress 1 (UDPAddr [10, 0, 0, 3] 8388 []) (\<lambda>pc. pc)))
       \<lparr>st_nm = newNATmap 60, st_buf = make_bytes udpBufSize\<rparr>
       [\<lparr>ev_read = Inr ([0, 0, 0, 1, 93, 184, 216, 34, 0, 80, 104, 105], UDPAddr [10, 0, 0, 2] 5353 []),
         ev_resolve = (\<lambda>w. Inl (IOError [])), ev_listen = Inr 7, ev_write = None\<rparr>,
        \<lparr>ev_read = Inr ([0, 0, 0, 1, 93, 184, 216, 34, 0, 80, 33], UDPAddr [10, 0, 0, 2] 5353 []),
         ev_resolve = (\<lambda>w. Inl (IOError [])), ev_listen = Inr 8, ev_write = None\<rparr>]
       = (tr, st2, Continue)
     \<and> length tr = 2
     \<and> created (concat tr) = [((Addr4 [10, 0, 0, 2], 5353), 7)]
     \<and> ListenPacket \<in> set (tr ! 0) \<and> ListenPacket \<notin> set (tr ! 1)
     \<and> writes (tr ! 0) = [(7, b1, t1)]
     \<and> writes (tr ! 1) = [(7, b2, t2)]
     \<and> natmap_Get (st_nm st2) (Addr4 [10, 0, 0, 2], 5353) = Some 7"
proof -
  let ?ing = "SocksIngress 1 (UDPAddr [10, 0, 0, 3] 8388 []) (\<lambda>pc. pc)"
  let ?st = "\<lparr>st_nm = newNATmap 60, st_buf = make_bytes udpBufSize\<rparr>"
  let ?a = "UDPAddr [10, 0, 0, 2] 5353 []"
  let ?d1 = "[0, 0, 0, 1, 93, 184, 216, 34, 0, 80, 104, 105] :: byte list"
  let ?d2 = "[0, 0, 0, 1, 93, 184, 216, 34, 0, 80, 33] :: byte list"
  let ?e1 = "\<lparr>ev_read = Inr (?d1, ?a), ev_resolve = (\<lambda>w. Inl (IOError [])),
             ev_listen = Inr 7, ev_write = None\<rparr>"
  let ?e2 = "\<lparr>ev_read = Inr (?d2, ?a), ev_resolve = (\<lambda>w. Inl (IOError [])),
             ev_listen = Inr 8, ev_write = None\<rparr>"
  let ?raddr = "(Addr4 [10, 0, 0, 2], 5353) :: netip_AddrPort"
  have u: "udpAddrToNetip ?a = (?raddr, None)"
    by (simp add: udpAddrToNetip_def IP_String_def To4_def IsValid_def AddrPortFrom_def)
  have h: "ev_read ?e1 = Inr (?d1, ?a) \<and> udpAddrToNetip ?a = (?raddr, None)
      \<and> ev_read ?e2 = Inr (?d2, ?a) \<and> udpAddrToNetip ?a = (?raddr, None)
      \<and> natmap_Get (st_nm ?st) ?raddr = None \<and> ev_listen ?e1 = Inr 7
      \<and> passes ?ing (length (st_buf ?st)) ?e1 \<and> passes ?ing (length (st_buf ?st)) ?e2"
    using u by (simp add: natmap_Get_def newNATmap_def make_bytes_def udpBufSize_def)
  from one_session_per_peer [where ing = ?ing, THEN conjunct2, THEN conjunct2, THEN conjunct2,
                             rule_format, OF h]
  obtain tr st2 pc b1 t1 b2 t2 where
      r: "run_loop (ingress_iter ?ing) ?st [?e1, ?e2] = (tr, st2, Continue)"
    and l: "length tr = 2"
    and c: "created (concat tr) = [(?raddr, pc)]"
    and rest: "ListenPacket \<in> set (tr ! 0)" "ListenPacket \<notin> set (tr ! 1)"
      "writes (tr ! 0) = [(pc, b1, t1)]" "writes (tr ! 1) = [(pc, b2, t2)]"
      "natmap_Get (st_nm st2) ?raddr = Some pc"
    by blast
  from r have first: "created (tr ! 0) = [(?raddr, 7)]"
    by (auto simp: udpSocksLocal_iter_def Let_def newNATmap_def natmap_Get_def
          natmap_Add_def natmap_Set_def u slice_def length_read_into read_n_def
          make_bytes_def udpBufSize_def created_append)
  from l obtain x y where xy: "tr = [x, y]"
    by (cases tr; cases "tl tr") auto
  with c first have "pc = 7" by (simp add: created_append)
  with r l c rest show ?thesis by blast
qed

subsection \<open>SOCKS-mode round trip\<close>











end
